theory Spec2Isabelle
  imports Complex_Main "HOL-Library.Multiset" "HOL-Library.Log_Nat"
begin

section \<open>The barbell warmup calculator of \<^verbatim>\<open>app.py\<close>\<close>

text \<open>
  The numeric core of \<^verbatim>\<open>app.py\<close>: \<^verbatim>\<open>calculate_warmup_weights\<close>,
  \<^verbatim>\<open>plate_weight\<close>, \<^verbatim>\<open>plate_selection\<close> and \<^verbatim>\<open>get_workout_data\<close>.

  A finite Python float is the real number it stands for. The float operations whose
  rounding decides what the program does next (the products and quotients that are
  passed to \<^verbatim>\<open>round\<close>, the load handed to the plate loop, and the subtraction in
  the plate loop) round their exact result to the nearest double with \<open>fl\<close>.
  \<^verbatim>\<open>plate_weight\<close> on its own and the value of \<^verbatim>\<open>round(x, 2)\<close> are kept exact:
  they differ from the program's floats by at most the last binary digit.
  The result of \<^verbatim>\<open>round(x)\<close> is a Python \<^verbatim>\<open>int\<close>, modelled by \<open>int\<close>.
\<close>

subsection \<open>Double precision\<close>

text \<open>Round to the nearest integer, a halfway case to the even neighbour.\<close>

definition round_half_even :: "real \<Rightarrow> int" where
  "round_half_even x =
     (if x - of_int \<lfloor>x\<rfloor> < 1/2 then \<lfloor>x\<rfloor>
      else if 1/2 < x - of_int \<lfloor>x\<rfloor> then \<lfloor>x\<rfloor> + 1
      else if even \<lfloor>x\<rfloor> then \<lfloor>x\<rfloor> else \<lfloor>x\<rfloor> + 1)"

text \<open>
  The binary exponent \<open>e\<close> of a nonzero real: \<open>2\<^sup>e \<le> \<bar>x\<bar> < 2\<^sup>e\<^sup>+\<^sup>1\<close>, computed from the
  bit length of the integer part, or of the integer part of the reciprocal.
\<close>

definition binade :: "real \<Rightarrow> int" where
  "binade x =
     (if 1 \<le> \<bar>x\<bar> then bitlen \<lfloor>\<bar>x\<bar>\<rfloor> - 1 else - bitlen (\<lceil>1 / \<bar>x\<bar>\<rceil> - 1))"

text \<open>
  The double nearest to a real, halfway cases to the even significand (IEEE 754
  binary64, round-to-nearest-even): 53 significant bits, and the fixed spacing
  \<open>2\<^sup>-\<^sup>1\<^sup>0\<^sup>7\<^sup>4\<close> below \<open>2\<^sup>-\<^sup>1\<^sup>0\<^sup>2\<^sup>2\<close>. Overflow to infinity is left out: no operation of
  the program increases the magnitude of a finite operand beyond the operand's.
\<close>

definition fl :: "real \<Rightarrow> real" where
  "fl x =
     (let q = max (binade x) (- 1022) - 52
      in of_int (round_half_even (x / 2 powi q)) * 2 powi q)"

definition is_float :: "real \<Rightarrow> bool" where
  "is_float x \<longleftrightarrow> fl x = x \<and> \<bar>x\<bar> < 2 ^ 1024"

text \<open>A Python float: a finite double, an infinity (of either sign), or not-a-number.\<close>

datatype pyfloat = Finite real | Infinity | NaN

subsection \<open>Python's built-in \<^verbatim>\<open>round\<close>\<close>

text \<open>
  C's \<^verbatim>\<open>round\<close>: the nearest integer, halfway cases away from zero.
\<close>

definition c_round :: "real \<Rightarrow> int" where
  "c_round x = (if 0 \<le> x then \<lfloor>x + 1/2\<rfloor> else - \<lfloor>- x + 1/2\<rfloor>)"

text \<open>
  \<^verbatim>\<open>round(x)\<close> on a finite float, as CPython computes it:
  \<^verbatim>\<open>rounded = round(x); if (fabs(x - rounded) == 0.5) rounded = 2.0 * round(x / 2.0);\<close>
  Both corrections are exact in double precision.
\<close>

definition py_round :: "real \<Rightarrow> int" where
  "py_round x =
     (let rounded = c_round x
      in if \<bar>x - of_int rounded\<bar> = 1/2 then 2 * c_round (x / 2) else rounded)"

text \<open>
  \<^verbatim>\<open>round(x, ndigits)\<close> on a float: the value of \<open>x\<close> rounded to \<open>ndigits\<close> decimal
  places, halfway cases to the even digit.
\<close>

definition py_round_ndigits :: "real \<Rightarrow> nat \<Rightarrow> real" where
  "py_round_ndigits x ndigits = of_int (py_round (x * 10 ^ ndigits)) / 10 ^ ndigits"

subsection \<open>\<^verbatim>\<open>calculate_warmup_weights\<close>\<close>

datatype error = ValueError | OverflowError

text \<open>
  \<^verbatim>\<open>round(target_weight * pct / 5) * 5\<close>: the literal \<open>pct\<close> is the double nearest to
  the decimal, the product and the quotient are rounded to doubles, and \<^verbatim>\<open>round\<close>
  returns an \<^verbatim>\<open>int\<close>. On an infinity \<^verbatim>\<open>round\<close> raises \<^verbatim>\<open>OverflowError\<close>, on
  not-a-number \<^verbatim>\<open>ValueError\<close>.
\<close>

fun calculate_warmup_weights :: "pyfloat \<Rightarrow> error + int \<times> int \<times> int" where
  "calculate_warmup_weights (Finite target_weight) =
     (let weight_45 = py_round (fl (fl (target_weight * fl (45/100)) / 5)) * 5;
          weight_65 = py_round (fl (fl (target_weight * fl (65/100)) / 5)) * 5;
          weight_85 = py_round (fl (fl (target_weight * fl (85/100)) / 5)) * 5
      in Inr (weight_45, weight_65, weight_85))"
| "calculate_warmup_weights Infinity = Inl OverflowError"
| "calculate_warmup_weights NaN = Inl ValueError"

declare calculate_warmup_weights.simps [simp del]

subsection \<open>\<^verbatim>\<open>plate_weight\<close>\<close>

definition bar_weight_default :: real where
  "bar_weight_default = 20"

definition plate_weight :: "real \<Rightarrow> real \<Rightarrow> error + real" where
  "plate_weight total_weight bar_weight =
     (if total_weight < bar_weight then Inl ValueError
      else Inr ((total_weight - bar_weight) / 2))"

subsection \<open>\<^verbatim>\<open>plate_selection\<close>\<close>

text \<open>
  The inner \<^verbatim>\<open>while remaining_weight >= plate\<close> loop; \<^verbatim>\<open>remaining_weight -= plate\<close>
  is a float subtraction. The loop does not return when \<open>plate \<le> 0\<close> and
  \<open>plate \<le> remaining_weight\<close>, nor when the remaining weight is so large that
  subtracting the plate gives back the same double; the value \<open>None\<close> stands for that.
\<close>

partial_function (option) plate_loop :: "real \<Rightarrow> real \<Rightarrow> real list \<Rightarrow> (real list \<times> real) option" where
  "plate_loop plate remaining_weight selected_plates =
     (if remaining_weight \<ge> plate
      then plate_loop plate (fl (remaining_weight - plate)) (selected_plates @ [plate])
      else Some (selected_plates, remaining_weight))"

declare plate_loop.simps [code]

text \<open>The outer \<^verbatim>\<open>for plate in plate_weights\<close> loop.\<close>

fun plate_for :: "real list \<Rightarrow> real \<Rightarrow> real list \<Rightarrow> real list option" where
  "plate_for [] remaining_weight selected_plates = Some selected_plates"
| "plate_for (plate # rest) remaining_weight selected_plates =
     (case plate_loop plate remaining_weight selected_plates of
        None \<Rightarrow> None
      | Some (selected_plates', remaining_weight') \<Rightarrow>
          plate_for rest remaining_weight' selected_plates')"

definition plate_weights_default :: "real list" where
  "plate_weights_default = [20, 10, 5, 5/2]"

definition plate_selection :: "real \<Rightarrow> real list \<Rightarrow> real list option" where
  "plate_selection weight_to_load plate_weights = plate_for plate_weights weight_to_load []"

subsection \<open>\<^verbatim>\<open>get_workout_data\<close>\<close>

text \<open>
  The value under the key \<^verbatim>\<open>"plates"\<close> is a string in the bar-only entry and a list
  of plates in the others.
\<close>

datatype plates_value = PlatesText string | PlatesList "real list"

text \<open>An entry of \<^verbatim>\<open>"warmup_sets"\<close>; the key \<^verbatim>\<open>"set"\<close> is the field \<open>set_label\<close>.\<close>

record warmup_set =
  set_label :: string
  reps :: int
  weight :: real
  weight_per_side :: real
  plates :: plates_value

text \<open>The dictionary under \<^verbatim>\<open>"target"\<close>, with the keys \<^verbatim>\<open>"weight"\<close>,
  \<^verbatim>\<open>"weight_per_side"\<close> and \<^verbatim>\<open>"plates"\<close> (the fields carry the suffix \<open>_t\<close>).\<close>

record target_set =
  weight_t :: real
  weight_per_side_t :: real
  plates_t :: "real list"

record workout_data =
  warmup_sets :: "warmup_set list"
  target :: target_set

text \<open>
  The two expressions \<^verbatim>\<open>round(plate_weight(w), 2)\<close> and
  \<^verbatim>\<open>plate_selection(plate_weight(w))\<close> that fill one entry, evaluated in this order.
  The float that \<^verbatim>\<open>plate_weight\<close> returns is the double nearest to the exact load.
  \<open>Some (Inl e)\<close>: the exception \<open>e\<close> is raised; \<open>None\<close>: the call does not return.
\<close>

definition side_and_plates :: "real \<Rightarrow> (error + real \<times> real list) option" where
  "side_and_plates w =
     (case plate_weight w bar_weight_default of
        Inl e \<Rightarrow> Some (Inl e)
      | Inr per_side \<Rightarrow>
          (case plate_weight w bar_weight_default of
             Inl e \<Rightarrow> Some (Inl e)
           | Inr weight_to_load \<Rightarrow>
               (case plate_selection (fl weight_to_load) plate_weights_default of
                  None \<Rightarrow> None
                | Some selected \<Rightarrow>
                    Some (Inr (py_round_ndigits (fl per_side) 2, selected)))))"

text \<open>
  \<^verbatim>\<open>calculate_warmup_weights\<close> is called first; when \<^verbatim>\<open>round\<close> raises there, on an
  infinity or not-a-number, nothing else is evaluated.
\<close>

fun get_workout_data :: "pyfloat \<Rightarrow> (error + workout_data) option" where
  "get_workout_data (Finite target_weight) =
     (case calculate_warmup_weights (Finite target_weight) of
        Inl e \<Rightarrow> Some (Inl e)
      | Inr (w45, w65, w85) \<Rightarrow>
      (case side_and_plates (of_int w45) of
         None \<Rightarrow> None
       | Some (Inl e) \<Rightarrow> Some (Inl e)
       | Some (Inr (side45, plates45)) \<Rightarrow>
      (case side_and_plates (of_int w65) of
         None \<Rightarrow> None
       | Some (Inl e) \<Rightarrow> Some (Inl e)
       | Some (Inr (side65, plates65)) \<Rightarrow>
      (case side_and_plates (of_int w85) of
         None \<Rightarrow> None
       | Some (Inl e) \<Rightarrow> Some (Inl e)
       | Some (Inr (side85, plates85)) \<Rightarrow>
      (case side_and_plates target_weight of
         None \<Rightarrow> None
       | Some (Inl e) \<Rightarrow> Some (Inl e)
       | Some (Inr (side_target, plates_target)) \<Rightarrow>
           Some (Inr \<lparr>warmup_sets =
              [\<lparr>set_label = ''2 sets'', reps = 5, weight = 20, weight_per_side = 0,
                plates = PlatesText ''None (just the bar)''\<rparr>,
               \<lparr>set_label = ''1 set'', reps = 5, weight = of_int w45,
                weight_per_side = side45, plates = PlatesList plates45\<rparr>,
               \<lparr>set_label = ''1 set'', reps = 3, weight = of_int w65,
                weight_per_side = side65, plates = PlatesList plates65\<rparr>,
               \<lparr>set_label = ''1 set'', reps = 2, weight = of_int w85,
                weight_per_side = side85, plates = PlatesList plates85\<rparr>],
             target =
               \<lparr>weight_t = target_weight, weight_per_side_t = side_target,
                plates_t = plates_target\<rparr>\<rparr>))))))"
| "get_workout_data Infinity = Some (Inl OverflowError)"
| "get_workout_data NaN = Some (Inl ValueError)"

declare get_workout_data.simps [simp del]

subsection \<open>Reference definitions for the statements\<close>

text \<open>
  The greedy decomposition: for each denomination in turn, as many copies as fit into
  the remaining weight.
\<close>

fun greedy_decomposition :: "real \<Rightarrow> real list \<Rightarrow> real list" where
  "greedy_decomposition remaining [] = []"
| "greedy_decomposition remaining (d # ds) =
     replicate (nat \<lfloor>remaining / d\<rfloor>) d
       @ greedy_decomposition (remaining - of_nat (nat \<lfloor>remaining / d\<rfloor>) * d) ds"

text \<open>The total of a \<^verbatim>\<open>"plates"\<close> value; the text of the bar-only entry stands for no plate.\<close>

fun plates_total :: "plates_value \<Rightarrow> real" where
  "plates_total (PlatesText s) = 0"
| "plates_total (PlatesList ps) = sum_list ps"

text \<open>
  The number of plates 20, 10, 5 and 2.5 that make up \<open>n\<close> units of 2.5, taking the
  largest first.
\<close>

definition unit_count :: "nat \<Rightarrow> nat" where
  "unit_count n = n div 8 + n mod 8 div 4 + n mod 8 mod 4 div 2 + n mod 8 mod 4 mod 2"

section \<open>Rounding\<close>

text \<open>
  \<open>c_round\<close> agrees with the floor or the ceiling away from a halfway case; at a halfway
  case CPython's correction picks the even neighbour.
\<close>



lemma c_round_floor_low:
  assumes "x - of_int \<lfloor>x\<rfloor> < 1/2"
  shows "c_round x = \<lfloor>x\<rfloor>"
proof -
  define f where "f = \<lfloor>x\<rfloor>"
  have b: "of_int f \<le> x" "x < of_int f + 1" "x - of_int f < 1/2"
    using assms unfolding f_def by linarith+
  have "\<lfloor>x + 1/2\<rfloor> = f" by (rule floor_unique) (use b in linarith)+
  moreover have "\<lfloor>- x + 1/2\<rfloor> = - f" by (rule floor_unique) (use b in simp_all)
  ultimately show ?thesis by (simp add: c_round_def f_def)
qed

lemma c_round_floor_high:
  assumes "1/2 < x - of_int \<lfloor>x\<rfloor>"
  shows "c_round x = \<lfloor>x\<rfloor> + 1"
proof -
  define f where "f = \<lfloor>x\<rfloor>"
  have b: "of_int f \<le> x" "x < of_int f + 1" "1/2 < x - of_int f"
    using assms unfolding f_def by linarith+
  have "\<lfloor>x + 1/2\<rfloor> = f + 1" by (rule floor_unique) (use b in simp_all)
  moreover have "\<lfloor>- x + 1/2\<rfloor> = - (f + 1)" by (rule floor_unique) (use b in simp_all)
  ultimately show ?thesis by (simp add: c_round_def f_def)
qed

lemma c_round_tie:
  assumes "x = of_int f + 1/2"
  shows "c_round x = (if 0 \<le> f then f + 1 else f)"
proof -
  have "\<lfloor>x + 1/2\<rfloor> = f + 1" using assms by (intro floor_unique) auto
  moreover have "\<lfloor>- x + 1/2\<rfloor> = - f" using assms by (intro floor_unique) auto
  moreover have "0 \<le> x \<longleftrightarrow> 0 \<le> f" using assms by (auto; linarith)
  ultimately show ?thesis by (simp add: c_round_def)
qed

lemma py_round_tie:
  assumes "x = of_int f + 1/2"
  shows "py_round x = (if even f then f else f + 1)"
proof -
  have cr: "c_round x = (if 0 \<le> f then f + 1 else f)" by (rule c_round_tie[OF assms])
  have tie: "\<bar>x - of_int (c_round x)\<bar> = 1/2" unfolding cr using assms by auto
  have s: "0 \<le> x / 2 \<longleftrightarrow> 0 \<le> f" using assms by (auto; linarith)
  have "2 * c_round (x / 2) = (if even f then f else f + 1)"
  proof (cases "even f")
    case True
    then obtain k where k: "f = 2 * k" by (auto elim: evenE)
    have xk: "x = 2 * of_int k + 1/2" using assms k by simp
    have "\<lfloor>x / 2 + 1/2\<rfloor> = k" by (rule floor_unique) (use xk in linarith)+
    moreover have "\<lfloor>- (x / 2) + 1/2\<rfloor> = - k"
      by (rule floor_unique) (use xk in \<open>simp_all add: field_simps\<close>)
    ultimately show ?thesis using True k s by (simp add: c_round_def)
  next
    case False
    then obtain k where k: "f = 2 * k + 1" by (auto elim: oddE)
    have xk: "x = 2 * of_int k + 3/2" using assms k by simp
    have "\<lfloor>x / 2 + 1/2\<rfloor> = k + 1" by (rule floor_unique) (use xk in \<open>simp_all add: field_simps\<close>)
    moreover have "\<lfloor>- (x / 2) + 1/2\<rfloor> = - (k + 1)"
      by (rule floor_unique) (use xk in \<open>simp_all add: field_simps\<close>)
    ultimately show ?thesis using False k s by (simp add: c_round_def)
  qed
  with tie show ?thesis by (simp add: py_round_def Let_def)
qed

lemma py_round_half_even: "py_round x = round_half_even x"
proof -
  consider (lo) "x - of_int \<lfloor>x\<rfloor> < 1/2" | (hi) "1/2 < x - of_int \<lfloor>x\<rfloor>"
    | (tie) "x = of_int \<lfloor>x\<rfloor> + 1/2" by linarith
  then show ?thesis
  proof cases
    case lo
    have "0 \<le> x - of_int \<lfloor>x\<rfloor>" by linarith
    with lo show ?thesis
      by (simp add: py_round_def Let_def round_half_even_def c_round_floor_low)
  next
    case hi
    have "x - of_int \<lfloor>x\<rfloor> < 1" by linarith
    with hi show ?thesis
      by (simp add: py_round_def Let_def round_half_even_def c_round_floor_high)
  next
    case tie
    have "x - of_int \<lfloor>x\<rfloor> = 1/2" using tie by simp
    then show ?thesis using py_round_tie[OF tie]
      by (simp add: round_half_even_def)
  qed
qed

lemma py_round_bounds: "x - 1/2 \<le> of_int (py_round x)" "of_int (py_round x) \<le> x + 1/2"
  unfolding py_round_half_even round_half_even_def by (auto; linarith)+

lemma py_round_ge: "of_int n \<le> x \<Longrightarrow> n \<le> py_round x"
  using py_round_bounds(1)[of x] by linarith

lemma py_round_le: "x \<le> of_int n \<Longrightarrow> py_round x \<le> n"
  using py_round_bounds(2)[of x] by linarith

lemma py_round_of_int: "py_round (of_int n) = n"
  using py_round_ge[of n "of_int n"] py_round_le[of "of_int n" n] by simp


section \<open>Double precision\<close>

lemma round_half_even_of_int: "round_half_even (of_int n) = n"
  by (simp add: round_half_even_def)

lemma round_half_even_le: "x \<le> of_int n \<Longrightarrow> round_half_even x \<le> n"
  using py_round_le [of x n] by (simp add: py_round_half_even)

lemma round_half_even_ge: "of_int n \<le> x \<Longrightarrow> n \<le> round_half_even x"
  using py_round_ge [of n x] by (simp add: py_round_half_even)

lemma binade_bounds:
  assumes "x \<noteq> 0"
  shows "2 powi (binade x) \<le> \<bar>x\<bar>" and "\<bar>x\<bar> < 2 powi (binade x + 1)"
proof -
  have "2 powi (binade x) \<le> \<bar>x\<bar> \<and> \<bar>x\<bar> < 2 powi (binade x + 1)"
  proof (cases "1 \<le> \<bar>x\<bar>")
    case True
    define N where "N = \<lfloor>\<bar>x\<bar>\<rfloor>"
    have N: "0 < N" using True by (simp add: N_def)
    have Nx: "of_int N \<le> \<bar>x\<bar>" "\<bar>x\<bar> < of_int N + 1" unfolding N_def by linarith+
    define b where "b = bitlen N"
    from bitlen_bounds [OF N] have bb: "2 ^ nat (b - 1) \<le> N" "N < 2 ^ nat b"
      by (simp_all add: b_def)
    have b1: "1 \<le> b" using N by (simp add: b_def bitlen_alt_def)
    have e: "binade x = b - 1" using True by (simp add: binade_def N_def b_def)
    have "(2::real) ^ nat (b - 1) \<le> of_int N"
      using bb(1) by (metis of_int_le_iff of_int_numeral of_int_power)
    moreover have "2 powi (b - 1) = (2::real) ^ nat (b - 1)"
      using b1 by (simp add: power_int_nonneg_exp)
    ultimately have lo: "2 powi (b - 1) \<le> \<bar>x\<bar>" using Nx(1) by linarith
    have "N + 1 \<le> 2 ^ nat b" using bb(2) by simp
    then have "(of_int (N + 1) :: real) \<le> of_int (2 ^ nat b)" by (simp only: of_int_le_iff)
    then have "of_int N + 1 \<le> (2::real) ^ nat b" by simp
    then have "\<bar>x\<bar> < 2 ^ nat b" using Nx(2) by linarith
    then have hi: "\<bar>x\<bar> < 2 powi b" using b1 by (simp add: power_int_nonneg_exp)
    show ?thesis using lo hi by (simp add: e)
  next
    case False
    define y where "y = 1 / \<bar>x\<bar>"
    have x0: "0 < \<bar>x\<bar>" using assms by simp
    have y1: "1 < y" using False x0 by (simp add: y_def)
    define M where "M = \<lceil>y\<rceil> - 1"
    have My: "of_int M < y" "y \<le> of_int M + 1" unfolding M_def by linarith+
    have M: "0 < M" using y1 My(2) by linarith
    define n where "n = bitlen M"
    from bitlen_bounds [OF M] have bb: "2 ^ nat (n - 1) \<le> M" "M < 2 ^ nat n"
      by (simp_all add: n_def)
    have n1: "1 \<le> n" using M by (simp add: n_def bitlen_alt_def)
    have e: "binade x = - n" using False by (simp add: binade_def M_def n_def y_def)
    have "M + 1 \<le> 2 ^ nat n" using bb(2) by simp
    then have "(of_int (M + 1) :: real) \<le> of_int (2 ^ nat n)" by (simp only: of_int_le_iff)
    then have "of_int M + 1 \<le> (2::real) ^ nat n" by simp
    then have yn: "y \<le> 2 ^ nat n" using My(2) by linarith
    have "(2::real) ^ nat (n - 1) \<le> of_int M"
      using bb(1) by (metis of_int_le_iff of_int_numeral of_int_power)
    then have ny: "2 ^ nat (n - 1) < y" using My(1) by linarith
    have xy: "\<bar>x\<bar> = 1 / y" using x0 by (simp add: y_def)
    have "1 / 2 ^ nat n \<le> 1 / y" using yn y1 by (simp add: frac_le)
    moreover have "2 powi (- n) = (1::real) / 2 ^ nat n"
      using n1 by (simp add: power_int_minus_divide power_int_nonneg_exp)
    ultimately have lo: "2 powi (- n) \<le> \<bar>x\<bar>" by (simp add: xy)
    have "1 / y < 1 / 2 ^ nat (n - 1)" using ny by (simp add: frac_less2)
    moreover have "2 powi (- n + 1) = (1::real) / 2 ^ nat (n - 1)"
    proof -
      have "- n + 1 = - (n - 1)" by simp
      then show ?thesis using n1
        by (simp only: power_int_minus_divide) (simp add: power_int_nonneg_exp)
    qed
    ultimately have hi: "\<bar>x\<bar> < 2 powi (- n + 1)" by (simp add: xy)
    show ?thesis using lo hi by (simp add: e)
  qed
  then show "2 powi (binade x) \<le> \<bar>x\<bar>" and "\<bar>x\<bar> < 2 powi (binade x + 1)" by simp_all
qed

lemma binade_less:
  assumes "x \<noteq> 0" and "\<bar>x\<bar> < 2 powi j"
  shows "binade x < j"
proof (rule ccontr)
  assume "\<not> binade x < j"
  then have "j \<le> binade x" by simp
  then have "(2::real) powi j \<le> 2 powi (binade x)" by (intro power_int_increasing) simp_all
  with binade_bounds(1) [OF assms(1)] assms(2) show False by linarith
qed

lemma binade_le:
  assumes "x \<noteq> 0" and "\<bar>x\<bar> \<le> 2 powi j"
  shows "binade x \<le> j"
proof (rule ccontr)
  assume "\<not> binade x \<le> j"
  then have "j + 1 \<le> binade x" by simp
  then have "(2::real) powi (j + 1) \<le> 2 powi (binade x)" by (intro power_int_increasing) simp_all
  moreover have "(2::real) powi j < 2 powi (j + 1)" by (intro power_int_strict_increasing) simp_all
  ultimately show False using binade_bounds(1) [OF assms(1)] assms(2) by linarith
qed

lemma binade_ge:
  assumes "x \<noteq> 0" and "2 powi j \<le> \<bar>x\<bar>"
  shows "j \<le> binade x"
proof (rule ccontr)
  assume "\<not> j \<le> binade x"
  then have "binade x + 1 \<le> j" by simp
  then have "(2::real) powi (binade x + 1) \<le> 2 powi j" by (intro power_int_increasing) simp_all
  with binade_bounds(2) [OF assms(1)] assms(2) show False by linarith
qed

text \<open>A multiple of \<open>2\<^sup>k\<close> with fewer than 54 significant bits is a double.\<close>

lemma fl_multiple:
  assumes y: "y = of_int m * 2 powi k" and bound: "\<bar>y\<bar> < 2 powi (k + 53)"
    and k: "- 1074 \<le> k"
  shows "fl y = y"
proof (cases "y = 0")
  case True
  then show ?thesis by (simp add: fl_def round_half_even_def)
next
  case False
  define q where "q = max (binade y) (- 1022) - 52"
  have "binade y < k + 53" by (rule binade_less [OF False bound])
  then have qk: "q \<le> k" using k by (simp add: q_def)
  have "(2::real) powi k = 2 powi (k - q) * 2 powi q"
    by (simp flip: power_int_add)
  also have "(2::real) powi (k - q) = of_int (2 ^ nat (k - q))"
    using qk by (simp add: power_int_nonneg_exp)
  finally have "y = of_int (m * 2 ^ nat (k - q)) * 2 powi q" by (simp add: y)
  then have "y / 2 powi q = of_int (m * 2 ^ nat (k - q))" by simp
  then have "round_half_even (y / 2 powi q) = m * 2 ^ nat (k - q)"
    by (simp only: round_half_even_of_int)
  then have "fl y = of_int (m * 2 ^ nat (k - q)) * 2 powi q"
    by (simp add: fl_def q_def Let_def)
  with \<open>y = of_int (m * 2 ^ nat (k - q)) * 2 powi q\<close> show ?thesis by simp
qed

lemma fl_is_multiple:
  assumes "fl x = x"
  shows "\<exists>m. x = of_int m * 2 powi (max (binade x) (- 1022) - 52)"
  using assms by (metis fl_def)

text \<open>Rounding does not pass a power of two.\<close>

lemma fl_le_power:
  assumes "y \<le> 2 powi j" and j: "- 1074 \<le> j"
  shows "fl y \<le> 2 powi j"
proof (cases "y \<le> 0")
  case True
  define q where "q = max (binade y) (- 1022) - 52"
  have "y / 2 powi q \<le> of_int 0" using True by (simp add: divide_le_0_iff)
  then have "round_half_even (y / 2 powi q) \<le> 0" by (rule round_half_even_le)
  then have "of_int (round_half_even (y / 2 powi q)) * (2::real) powi q \<le> 0"
    by (simp add: mult_le_0_iff)
  then have "fl y \<le> 0" by (simp add: fl_def q_def Let_def)
  moreover have "(0::real) \<le> 2 powi j" by simp
  ultimately show ?thesis by linarith
next
  case False
  then have y0: "y \<noteq> 0" and ay: "\<bar>y\<bar> \<le> 2 powi j" using assms(1) by simp_all
  define q where "q = max (binade y) (- 1022) - 52"
  have "binade y \<le> j" by (rule binade_le [OF y0 ay])
  then have qj: "q \<le> j" using j by (simp add: q_def)
  have pj: "(2::real) powi j = of_int (2 ^ nat (j - q)) * 2 powi q"
  proof -
    have "(2::real) powi j = 2 powi (j - q) * 2 powi q" by (simp flip: power_int_add)
    then show ?thesis using qj by (simp add: power_int_nonneg_exp)
  qed
  have "y / 2 powi q \<le> of_int (2 ^ nat (j - q))"
    using assms(1) by (simp add: pj pos_divide_le_eq)
  then have "round_half_even (y / 2 powi q) \<le> 2 ^ nat (j - q)" by (rule round_half_even_le)
  then have "(of_int (round_half_even (y / 2 powi q)) :: real) \<le> of_int (2 ^ nat (j - q))"
    by (simp only: of_int_le_iff)
  then have "of_int (round_half_even (y / 2 powi q)) * (2::real) powi q
               \<le> of_int (2 ^ nat (j - q)) * 2 powi q"
    by (rule mult_right_mono) simp
  then show ?thesis by (simp add: fl_def q_def [symmetric] Let_def pj)
qed

lemma fl_nonneg:
  assumes "0 \<le> y"
  shows "0 \<le> fl y"
proof -
  define q where "q = max (binade y) (- 1022) - 52"
  have "of_int 0 \<le> y / 2 powi q" using assms by simp
  then have "0 \<le> round_half_even (y / 2 powi q)" by (rule round_half_even_ge)
  then show ?thesis by (simp add: fl_def q_def [symmetric] Let_def)
qed

text \<open>Subtracting a plate from a double that is not too large is exact.\<close>

lemma fl_sub_exact:
  assumes x: "fl x = x" and p: "p = of_int c * 2 powi k" and p0: "0 \<le> p" and px: "p \<le> x"
    and bound: "x < 2 powi (k + 53)" and k: "- 1074 \<le> k"
  shows "fl (x - p) = x - p"
proof (cases "x = 0")
  case True
  with p0 px have "p = 0" by simp
  with True show ?thesis by (simp add: fl_def round_half_even_def)
next
  case False
  define q where "q = max (binade x) (- 1022) - 52"
  from fl_is_multiple [OF x] obtain m where m: "x = of_int m * 2 powi q"
    unfolding q_def by blast
  have x0: "0 < x" using False p0 px by linarith
  then have "\<bar>x\<bar> < 2 powi (k + 53)" using bound by simp
  then have "binade x < k + 53" by (rule binade_less [OF False])
  then have qk: "q \<le> k" using k by (simp add: q_def)
  have "(2::real) powi k = 2 powi (k - q) * 2 powi q" by (simp flip: power_int_add)
  then have "(2::real) powi k = of_int (2 ^ nat (k - q)) * 2 powi q"
    using qk by (simp add: power_int_nonneg_exp)
  then have "p = of_int (c * 2 ^ nat (k - q)) * 2 powi q" by (simp add: p)
  then have d: "x - p = of_int (m - c * 2 ^ nat (k - q)) * 2 powi q"
    using m by (simp add: algebra_simps)
  have "binade x \<le> q + 52" by (simp add: q_def)
  then have "(2::real) powi (binade x + 1) \<le> 2 powi (q + 53)"
    by (intro power_int_increasing) simp_all
  with binade_bounds(2) [OF False] x0 have "x < 2 powi (q + 53)" by simp
  then have "\<bar>x - p\<bar> < 2 powi (q + 53)" using p0 px by simp
  moreover have "- 1074 \<le> q" by (simp add: q_def)
  ultimately show ?thesis by (rule fl_multiple [OF d])
qed

section \<open>The greedy loop\<close>

lemma plate_loop_exit:
  "remaining < plate \<Longrightarrow> plate_loop plate remaining selected = Some (selected, remaining)"
  by (subst plate_loop.simps) simp

lemma remainder_less:
  assumes "0 < d"
  shows "r - of_nat (nat \<lfloor>r / d\<rfloor>) * d < (d::real)"
proof (cases "0 \<le> r")
  case True
  define f where "f = \<lfloor>r / d\<rfloor>"
  have "0 \<le> f" using True assms by (simp add: f_def)
  then have n: "of_nat (nat f) = (of_int f :: real)" by simp
  have "r / d < of_int f + 1" unfolding f_def by linarith
  then have "r / d * d < (of_int f + 1) * d" using assms by (rule mult_strict_right_mono)
  then have "r < (of_int f + 1) * d" using assms by simp
  then show ?thesis unfolding f_def [symmetric] n by (simp add: algebra_simps)
next
  case False
  then have "r / d < 0" using assms by (simp add: divide_less_0_iff)
  then have "\<lfloor>r / d\<rfloor> < 0" by (simp add: floor_less_iff)
  then have "nat \<lfloor>r / d\<rfloor> = 0" by simp
  then show ?thesis using False assms by simp
qed

text \<open>
  For a positive plate that is a multiple of \<open>2\<^sup>k\<close> and a double below \<open>2\<^sup>k\<^sup>+\<^sup>5\<^sup>3\<close>, every
  subtraction of the loop is exact: the loop returns, having taken the plate as often
  as it fits, and leaves a double.
\<close>

lemma plate_loop_exact:
  assumes "0 < plate" and "plate = of_int c * 2 powi k" and "- 1074 \<le> k"
    and "fl remaining = remaining" and "remaining < 2 powi (k + 53)"
  shows "plate_loop plate remaining selected =
           Some (selected @ replicate (nat \<lfloor>remaining / plate\<rfloor>) plate,
                 remaining - of_nat (nat \<lfloor>remaining / plate\<rfloor>) * plate)
         \<and> fl (remaining - of_nat (nat \<lfloor>remaining / plate\<rfloor>) * plate)
             = remaining - of_nat (nat \<lfloor>remaining / plate\<rfloor>) * plate"
  using assms(4,5)
proof (induction "nat \<lfloor>remaining / plate\<rfloor>" arbitrary: remaining selected)
  case 0
  then have "\<lfloor>remaining / plate\<rfloor> \<le> 0" by simp
  then have "remaining / plate < 1" by (simp add: floor_le_iff)
  then have "remaining < plate" using assms(1) by (simp add: field_simps)
  then show ?case using 0 by (simp add: plate_loop_exit)
next
  case (Suc n)
  then have fl: "\<lfloor>remaining / plate\<rfloor> = int n + 1" by linarith
  then have "1 \<le> remaining / plate" by linarith
  then have ge: "plate \<le> remaining" using assms(1) by (simp add: field_simps)
  have ex: "fl (remaining - plate) = remaining - plate"
    by (rule fl_sub_exact [OF Suc.prems(1) assms(2) _ ge Suc.prems(2) assms(3)])
      (use assms(1) in simp)
  have "(remaining - plate) / plate = remaining / plate - 1"
    using assms(1) by (simp add: field_simps)
  then have fl': "\<lfloor>(remaining - plate) / plate\<rfloor> = int n" using fl by simp
  then have n: "n = nat \<lfloor>(remaining - plate) / plate\<rfloor>" by simp
  have b: "remaining - plate < 2 powi (k + 53)" using Suc.prems(2) assms(1) by linarith
  have ex2: "fl (remaining - plate) = remaining - plate" by (rule ex)
  note IH = Suc.hyps(1) [OF n ex2 b, of "selected @ [plate]"]
  have "plate_loop plate remaining selected =
          plate_loop plate (remaining - plate) (selected @ [plate])"
    using ge ex by (subst plate_loop.simps) simp
  with IH fl fl' show ?case
    by (simp add: replicate_append_same algebra_simps nat_add_distrib)
qed

text \<open>
  Where subtracting the plate gives back the same double, the loop never returns.
\<close>

lemma plate_loop_stuck:
  assumes "plate \<le> remaining" and "fl (remaining - plate) = remaining"
  shows "plate_loop plate remaining selected = None"
proof -
  have ns: "\<not> (p = plate \<and> r = remaining)" if "plate_loop p r s = Some y" for p r s y
  proof (rule plate_loop.raw_induct
      [where P = "\<lambda>p r s y. \<not> (p = plate \<and> r = remaining)", OF _ that])
    fix loop p r s y
    assume IH: "\<And>a b c y. loop a b c = Some y \<Longrightarrow> \<not> (a = plate \<and> b = remaining)"
      and body: "(if p \<le> r then loop p (fl (r - p)) (s @ [p]) else Some (s, r)) = Some y"
    show "\<not> (p = plate \<and> r = remaining)"
    proof
      assume "p = plate \<and> r = remaining"
      with body assms have "loop plate remaining (s @ [plate]) = Some y" by simp
      from IH [OF this] show False by simp
    qed
  qed
  show ?thesis
  proof (cases "plate_loop plate remaining selected")
    case None
    then show ?thesis .
  next
    case (Some y)
    from ns [OF Some] show ?thesis by simp
  qed
qed

lemma plate_for_exact:
  assumes w: "fl w = w" and bound: "w < 2 ^ 55"
  shows "plate_for plate_weights_default w selected
           = Some (selected @ greedy_decomposition w plate_weights_default)"
proof -
  define n1 where "n1 = nat \<lfloor>w / 20\<rfloor>"
  define r1 where "r1 = w - of_nat n1 * 20"
  define n2 where "n2 = nat \<lfloor>r1 / 10\<rfloor>"
  define r2 where "r2 = r1 - of_nat n2 * 10"
  define n3 where "n3 = nat \<lfloor>r2 / 5\<rfloor>"
  define r3 where "r3 = r2 - of_nat n3 * 5"
  define n4 where "n4 = nat \<lfloor>r3 / (5/2)\<rfloor>"
  define s1 where "s1 = selected @ replicate n1 20"
  define s2 where "s2 = s1 @ replicate n2 10"
  define s3 where "s3 = s2 @ replicate n3 5"
  have l1: "plate_loop 20 w selected = Some (s1, r1) \<and> fl r1 = r1"
    unfolding n1_def r1_def s1_def
    by (rule plate_loop_exact [where c = 5 and k = 2]) (use w bound in simp_all)
  have "r1 < 20" unfolding r1_def n1_def by (rule remainder_less) simp
  then have b1: "r1 < 2 powi (1 + 53)" by simp
  have l2: "plate_loop 10 r1 s1 = Some (s2, r2) \<and> fl r2 = r2"
    unfolding n2_def r2_def s2_def
    by (rule plate_loop_exact [where c = 5 and k = 1]) (use l1 b1 in simp_all)
  have "r2 < 10" unfolding r2_def n2_def by (rule remainder_less) simp
  then have b2: "r2 < 2 powi (0 + 53)" by simp
  have l3: "plate_loop 5 r2 s2 = Some (s3, r3) \<and> fl r3 = r3"
    unfolding n3_def r3_def s3_def
    by (rule plate_loop_exact [where c = 5 and k = 0]) (use l2 b2 in simp_all)
  have "r3 < 5" unfolding r3_def n3_def by (rule remainder_less) simp
  then have b3: "r3 < 2 powi (- 1 + 53)" by simp
  have l4: "plate_loop (5/2) r3 s3 = Some (s3 @ replicate n4 (5/2), r3 - of_nat n4 * (5/2))
            \<and> fl (r3 - of_nat n4 * (5/2)) = r3 - of_nat n4 * (5/2)"
    unfolding n4_def
    by (rule plate_loop_exact [where c = 5 and k = "- 1"]) (use l3 b3 in simp_all)
  have "plate_for plate_weights_default w selected = Some (s3 @ replicate n4 (5/2))"
    using l1 l2 l3 l4 by (simp add: plate_weights_default_def)
  moreover have "greedy_decomposition w plate_weights_default
          = replicate n1 20 @ replicate n2 10 @ replicate n3 5 @ replicate n4 (5/2)"
    by (simp add: plate_weights_default_def n1_def r1_def n2_def r2_def n3_def r3_def n4_def)
  ultimately show ?thesis by (simp add: s1_def s2_def s3_def)
qed

lemma plate_selection_exact:
  assumes "fl w = w" and "w < 2 ^ 55"
  shows "plate_selection w plate_weights_default
           = Some (greedy_decomposition w plate_weights_default)"
  using plate_for_exact [OF assms, of "[]"] by (simp add: plate_selection_def)

lemma plate_selection_nonpos:
  assumes "w \<le> 0"
  shows "plate_selection w plate_weights_default = Some []"
  using assms
  by (simp add: plate_selection_def plate_weights_default_def plate_loop_exit)

subsection \<open>Counting in units of 2.5\<close>

lemma unit_sum_aux:
  "m = 8 * a + b \<Longrightarrow> b = 4 * c + d \<Longrightarrow> d = 2 * e + f
     \<Longrightarrow> (m::nat) = 8 * a + 4 * c + 2 * e + f"
  by simp

lemma unit_sum:
  "(m::nat) = 8 * (m div 8) + 4 * (m mod 8 div 4) + 2 * (m mod 8 mod 4 div 2)
                + m mod 8 mod 4 mod 2"
  by (rule unit_sum_aux) simp_all

lemma unit_count_split: "unit_count (8 * q + r) = q + unit_count r" if "r < 8"
  using that by (simp add: unit_count_def)

lemma unit_count_table:
  "unit_count 0 = 0" "unit_count 1 = 1" "unit_count 2 = 1" "unit_count 3 = 2"
  "unit_count 4 = 1" "unit_count 5 = 2" "unit_count 6 = 2" "unit_count 7 = 3"
  "unit_count (Suc 0) = 1" "unit_count (Suc (Suc 0)) = 1"
  "unit_count (Suc (Suc (Suc 0))) = 2"
  by (simp_all add: unit_count_def)

lemma unit_count_small:
  assumes "r < 8" and "c = 8 \<or> c = 4 \<or> c = 2 \<or> c = 1"
  shows "(if r + c < 8 then unit_count (r + c) else Suc (unit_count (r + c - 8)))
           \<le> Suc (unit_count r)"
proof -
  from assms(1) have "r = 0 \<or> r = 1 \<or> r = 2 \<or> r = 3 \<or> r = 4 \<or> r = 5 \<or> r = 6 \<or> r = 7"
    by linarith
  with assms(2) show ?thesis
    by (elim disjE) (simp_all add: unit_count_table)
qed

text \<open>One more plate raises the greedy count by at most one.\<close>

lemma unit_count_step:
  assumes "c = 8 \<or> c = 4 \<or> c = 2 \<or> c = 1"
  shows "unit_count (n + c) \<le> Suc (unit_count n)"
proof -
  define q r where "q = n div 8" and "r = n mod 8"
  have n: "n = 8 * q + r" and r: "r < 8" by (simp_all add: q_def r_def)
  have c: "c \<le> 8" using assms by auto
  have base: "unit_count n = q + unit_count r"
    unfolding n by (rule unit_count_split [OF r])
  have "unit_count (n + c) =
          (if r + c < 8 then q + unit_count (r + c) else Suc q + unit_count (r + c - 8))"
  proof (cases "r + c < 8")
    case True
    have "n + c = 8 * q + (r + c)" by (simp only: n add.assoc)
    with unit_count_split [OF True, of q] True show ?thesis by (simp only: if_True)
  next
    case False
    have lt: "r + c - 8 < 8" using r c by linarith
    have "n + c = 8 * Suc q + (r + c - 8)" using False n by simp
    with unit_count_split [OF lt, of "Suc q"] False show ?thesis by (simp only: if_False)
  qed
  with unit_count_small [OF r assms] base show ?thesis
    by (simp split: if_splits)
qed

subsection \<open>The greedy decomposition over the default plates\<close>

lemma unit_step:
  fixes r d :: real and c :: int
  assumes c: "0 < c" and d: "d = of_int c * (5/2)"
  shows "\<lfloor>r / d\<rfloor> = \<lfloor>r / (5/2)\<rfloor> div c"
    and "0 \<le> \<lfloor>r / (5/2)\<rfloor> \<Longrightarrow>
         \<lfloor>(r - of_nat (nat \<lfloor>r / d\<rfloor>) * d) / (5/2)\<rfloor> = \<lfloor>r / (5/2)\<rfloor> mod c"
proof -
  have eq: "r / d = r / (5/2) / of_int c" using c by (simp add: d)
  have "\<lfloor>r / (5/2) / of_int c\<rfloor> = \<lfloor>r / (5/2)\<rfloor> div c"
    by (rule floor_divide_real_eq_div) (use c in simp)
  then show fl: "\<lfloor>r / d\<rfloor> = \<lfloor>r / (5/2)\<rfloor> div c"
    by (simp only: eq)
  assume nn: "0 \<le> \<lfloor>r / (5/2)\<rfloor>"
  then have "0 \<le> \<lfloor>r / (5/2)\<rfloor> div c" using c by (simp add: pos_imp_zdiv_nonneg_iff)
  then have "of_nat (nat \<lfloor>r / d\<rfloor>) = (of_int (\<lfloor>r / (5/2)\<rfloor> div c) :: real)"
    by (simp add: fl)
  then have "(r - of_nat (nat \<lfloor>r / d\<rfloor>) * d) / (5/2)
               = r / (5/2) - of_int (\<lfloor>r / (5/2)\<rfloor> div c * c)"
    by (simp add: d field_simps)
  then have "\<lfloor>(r - of_nat (nat \<lfloor>r / d\<rfloor>) * d) / (5/2)\<rfloor>
               = \<lfloor>r / (5/2)\<rfloor> - \<lfloor>r / (5/2)\<rfloor> div c * c"
    by (simp only: floor_diff_of_int)
  then show "\<lfloor>(r - of_nat (nat \<lfloor>r / d\<rfloor>) * d) / (5/2)\<rfloor> = \<lfloor>r / (5/2)\<rfloor> mod c"
    by (simp add: minus_div_mult_eq_mod)
qed

lemma greedy_default_units:
  assumes "0 \<le> w"
  shows "greedy_decomposition w plate_weights_default =
           replicate (nat \<lfloor>w / (5/2)\<rfloor> div 8) 20
           @ replicate (nat \<lfloor>w / (5/2)\<rfloor> mod 8 div 4) 10
           @ replicate (nat \<lfloor>w / (5/2)\<rfloor> mod 8 mod 4 div 2) 5
           @ replicate (nat \<lfloor>w / (5/2)\<rfloor> mod 8 mod 4 mod 2) (5/2)"
proof -
  define j0 where "j0 = \<lfloor>w / (5/2)\<rfloor>"
  define r1 where "r1 = w - of_nat (nat \<lfloor>w / 20\<rfloor>) * 20"
  define r2 where "r2 = r1 - of_nat (nat \<lfloor>r1 / 10\<rfloor>) * 10"
  define r3 where "r3 = r2 - of_nat (nat \<lfloor>r2 / 5\<rfloor>) * 5"
  have j0: "0 \<le> j0" using assms by (simp add: j0_def)
  have k1: "\<lfloor>w / 20\<rfloor> = j0 div 8" unfolding j0_def
    by (rule unit_step(1) [of 8]) simp_all
  have nn0: "0 \<le> \<lfloor>w / (5/2)\<rfloor>" using j0 by (simp only: j0_def)
  have j1: "\<lfloor>r1 / (5/2)\<rfloor> = j0 mod 8" unfolding j0_def r1_def
    by (rule unit_step(2) [of 8, OF _ _ nn0]) simp_all
  have nn1: "0 \<le> \<lfloor>r1 / (5/2)\<rfloor>" unfolding j1 by simp
  have k2: "\<lfloor>r1 / 10\<rfloor> = j0 mod 8 div 4" unfolding j1 [symmetric]
    by (rule unit_step(1) [of 4]) simp_all
  have j2: "\<lfloor>r2 / (5/2)\<rfloor> = j0 mod 8 mod 4" unfolding j1 [symmetric] r2_def
    by (rule unit_step(2) [of 4, OF _ _ nn1]) simp_all
  have nn2: "0 \<le> \<lfloor>r2 / (5/2)\<rfloor>" unfolding j2 by simp
  have k3: "\<lfloor>r2 / 5\<rfloor> = j0 mod 8 mod 4 div 2" unfolding j2 [symmetric]
    by (rule unit_step(1) [of 2]) simp_all
  have j3: "\<lfloor>r3 / (5/2)\<rfloor> = j0 mod 8 mod 4 mod 2" unfolding j2 [symmetric] r3_def
    by (rule unit_step(2) [of 2, OF _ _ nn2]) simp_all
  have "greedy_decomposition w plate_weights_default =
          replicate (nat \<lfloor>w / 20\<rfloor>) 20 @ replicate (nat \<lfloor>r1 / 10\<rfloor>) 10
          @ replicate (nat \<lfloor>r2 / 5\<rfloor>) 5 @ replicate (nat \<lfloor>r3 / (5/2)\<rfloor>) (5/2)"
    by (simp add: plate_weights_default_def r1_def r2_def r3_def)
  also have "\<dots> = replicate (nat (j0 div 8)) 20 @ replicate (nat (j0 mod 8 div 4)) 10
          @ replicate (nat (j0 mod 8 mod 4 div 2)) 5
          @ replicate (nat (j0 mod 8 mod 4 mod 2)) (5/2)"
    by (simp only: k1 k2 k3 j3)
  also have "\<dots> = replicate (nat j0 div 8) 20 @ replicate (nat j0 mod 8 div 4) 10
          @ replicate (nat j0 mod 8 mod 4 div 2) 5
          @ replicate (nat j0 mod 8 mod 4 mod 2) (5/2)"
    using j0 by (simp add: nat_div_distrib nat_mod_distrib)
  finally show ?thesis by (simp add: j0_def)
qed

lemma greedy_default_sum:
  assumes "0 \<le> w"
  shows "sum_list (greedy_decomposition w plate_weights_default)
           = of_nat (nat \<lfloor>w / (5/2)\<rfloor>) * (5/2)"
proof -
  define m where "m = nat \<lfloor>w / (5/2)\<rfloor>"
  have "(of_nat m :: real) =
      of_nat (8 * (m div 8) + 4 * (m mod 8 div 4) + 2 * (m mod 8 mod 4 div 2)
                + m mod 8 mod 4 mod 2)"
    by (rule arg_cong [where f = of_nat, OF unit_sum])
  then have e: "(of_nat m :: real) =
      8 * of_nat (m div 8) + 4 * of_nat (m mod 8 div 4) + 2 * of_nat (m mod 8 mod 4 div 2)
        + of_nat (m mod 8 mod 4 mod 2)"
    by (simp only: of_nat_add of_nat_mult of_nat_numeral)
  show ?thesis
    unfolding greedy_default_units [OF assms] m_def [symmetric]
    by (subst e) (simp add: sum_list_replicate)
qed

lemma greedy_default_length:
  assumes "0 \<le> w"
  shows "length (greedy_decomposition w plate_weights_default)
           = unit_count (nat \<lfloor>w / (5/2)\<rfloor>)"
  unfolding greedy_default_units [OF assms] by (simp add: unit_count_def)

lemma greedy_default_set:
  "set (greedy_decomposition w plate_weights_default) \<subseteq> set plate_weights_default"
  by (auto simp: plate_weights_default_def)

lemma greedy_default_nonpos:
  assumes "w \<le> 0"
  shows "greedy_decomposition w plate_weights_default = []"
proof -
  have z: "nat \<lfloor>w / d\<rfloor> = 0" if "0 < d" for d :: real
  proof -
    have "w / d \<le> 0" using assms that by (simp add: divide_le_0_iff)
    then have "\<lfloor>w / d\<rfloor> \<le> 0" by (simp add: floor_le_iff)
    then show ?thesis by simp
  qed
  have "nat \<lfloor>w / 20\<rfloor> = 0" by (rule z) simp
  moreover have "nat \<lfloor>w / 10\<rfloor> = 0" by (rule z) simp
  moreover have "nat \<lfloor>w / 5\<rfloor> = 0" by (rule z) simp
  moreover have "nat \<lfloor>w / (5/2)\<rfloor> = 0" by (rule z) simp
  ultimately show ?thesis by (simp add: plate_weights_default_def)
qed

text \<open>
  Any selection of default plates weighs a whole number of units, and has at least as
  many plates as the greedy count for that number.
\<close>

lemma denominations_units:
  assumes "set ps \<subseteq> set plate_weights_default"
  shows "\<exists>n::nat. sum_list ps = of_nat n * (5/2) \<and> unit_count n \<le> length ps"
  using assms
proof (induction ps)
  case Nil
  show ?case by (rule exI [of _ 0]) (simp add: unit_count_table)
next
  case (Cons p ps)
  then obtain n :: nat where n: "sum_list ps = of_nat n * (5/2)" "unit_count n \<le> length ps"
    by auto
  from Cons.prems have "p = 20 \<or> p = 10 \<or> p = 5 \<or> p = 5/2"
    by (simp add: plate_weights_default_def)
  then obtain c :: nat where c: "p = of_nat c * (5/2)" "c = 8 \<or> c = 4 \<or> c = 2 \<or> c = 1"
  proof (elim disjE)
    assume "p = 20" then show ?thesis by (intro that [of 8]) simp_all
  next
    assume "p = 10" then show ?thesis by (intro that [of 4]) simp_all
  next
    assume "p = 5" then show ?thesis by (intro that [of 2]) simp_all
  next
    assume "p = 5/2" then show ?thesis by (intro that [of 1]) simp_all
  qed
  have "sum_list (p # ps) = of_nat (n + c) * (5/2)"
    by (simp add: n(1) c(1) algebra_simps)
  moreover have "unit_count (n + c) \<le> length (p # ps)"
    using unit_count_step [OF c(2), of n] n(2) by simp
  ultimately show ?case by blast
qed

subsection \<open>Bounds on a selection and its load\<close>

lemma greedy_default_bounds:
  assumes "0 \<le> l"
  shows "sum_list (greedy_decomposition l plate_weights_default) \<le> l"
    and "l - sum_list (greedy_decomposition l plate_weights_default) < 5/2"
    and "sum_list (greedy_decomposition l plate_weights_default) \<le> py_round_ndigits l 2"
    and "py_round_ndigits l 2 - sum_list (greedy_decomposition l plate_weights_default) \<le> 5/2"
proof -
  define x where "x = l / (5/2)"
  define j where "j = \<lfloor>x\<rfloor>"
  define S where "S = sum_list (greedy_decomposition l plate_weights_default)"
  have l: "l = x * (5/2)" by (simp add: x_def)
  have "0 \<le> x" using assms by (simp add: x_def)
  then have j0: "0 \<le> j" by (simp add: j_def)
  have "S = of_nat (nat j) * (5/2)"
    unfolding S_def j_def x_def by (rule greedy_default_sum [OF assms])
  then have total: "S = of_int j * (5/2)" using j0 by simp
  have lo: "of_int j \<le> x" and hi: "x < of_int j + 1" unfolding j_def by linarith+
  show "S \<le> l" using lo by (simp add: total l)
  show "l - S < 5/2" using hi by (simp add: total l)
  have "of_int (250 * j) \<le> l * 100" using lo by (simp add: l)
  then have "250 * j \<le> py_round (l * 100)" by (rule py_round_ge)
  then have "(of_int (250 * j) :: real) \<le> of_int (py_round (l * 100))"
    by (simp only: of_int_le_iff)
  then show "S \<le> py_round_ndigits l 2"
    by (simp add: total py_round_ndigits_def)
  have "l * 100 \<le> of_int (250 * j + 250)" using hi by (simp add: l)
  then have "py_round (l * 100) \<le> 250 * j + 250" by (rule py_round_le)
  then have "(of_int (py_round (l * 100)) :: real) \<le> of_int (250 * j + 250)"
    by (simp only: of_int_le_iff)
  then show "py_round_ndigits l 2 - S \<le> 5/2"
    by (simp add: total py_round_ndigits_def)
qed

subsection \<open>Loads that are doubles\<close>

lemma fl_unit_interval:
  assumes "0 \<le> p" and "p \<le> 1"
  shows "0 \<le> fl p" and "fl p \<le> 1"
proof -
  show "0 \<le> fl p" by (rule fl_nonneg [OF assms(1)])
  have "fl p \<le> 2 powi 0" by (rule fl_le_power) (use assms(2) in simp_all)
  then show "fl p \<le> 1" by simp
qed

lemma warmup_weight_bound:
  assumes t: "0 \<le> t" "t \<le> 2 ^ 52" and d: "0 \<le> d" "d \<le> 1"
  shows "py_round (fl (fl (t * d) / 5)) * 5 \<le> 5 * 2 ^ 50"
proof -
  have "t * d \<le> t * 1" using t(1) d(2) by (rule mult_left_mono [rotated])
  then have "t * d \<le> 2 powi 52" using t(2) by simp
  then have "fl (t * d) \<le> 2 powi 52" by (rule fl_le_power) simp
  then have "fl (t * d) / 5 \<le> 2 powi 50" by simp
  then have "fl (fl (t * d) / 5) \<le> 2 powi 50" by (rule fl_le_power) simp
  then have "fl (fl (t * d) / 5) \<le> of_int (2 ^ 50)" by simp
  then have "py_round (fl (fl (t * d) / 5)) \<le> 2 ^ 50" by (rule py_round_le)
  then show ?thesis by simp
qed

text \<open>The load of an integer weight up to \<open>5 * 2\<^sup>5\<^sup>0\<close> is a double.\<close>

lemma int_load_exact:
  assumes "20 \<le> w" and "w \<le> 5 * 2 ^ 50"
  shows "fl ((of_int w - 20) / 2) = (of_int w - 20) / 2"
    and "(of_int w - 20) / 2 < (2::real) ^ 55"
    and "0 \<le> (of_int w - 20) / (2::real)"
proof -
  have le: "(of_int w :: real) \<le> of_int (5 * 2 ^ 50)" using assms(2) by (simp only: of_int_le_iff)
  have ge: "(of_int 20 :: real) \<le> of_int w" using assms(1) by (simp only: of_int_le_iff)
  have m: "(of_int w - 20) / 2 = of_int (w - 20) * (2::real) powi (- 1)" by simp
  have "\<bar>(of_int w - 20) / (2::real)\<bar> < 2 powi (- 1 + 53)" using le ge by simp
  then show "fl ((of_int w - 20) / 2) = (of_int w - 20) / 2"
    by (rule fl_multiple [OF m]) simp
  show "(of_int w - 20) / 2 < (2::real) ^ 55" using le by simp
  show "0 \<le> (of_int w - 20) / (2::real)" using ge by simp
qed

text \<open>The load of a double between 20 and \<open>2\<^sup>5\<^sup>2\<close> is a double.\<close>

lemma float_load_exact:
  assumes t: "fl t = t" and ge: "20 \<le> t" and le: "t \<le> 2 ^ 52"
  shows "fl ((t - 20) / 2) = (t - 20) / 2"
proof -
  have t0: "t \<noteq> 0" using ge by simp
  define q where "q = max (binade t) (- 1022) - 52"
  from fl_is_multiple [OF t] obtain m where m: "t = of_int m * 2 powi q"
    unfolding q_def by blast
  have "2 powi 4 \<le> \<bar>t\<bar>" using ge by simp
  then have b4: "4 \<le> binade t" by (rule binade_ge [OF t0])
  have "\<bar>t\<bar> \<le> 2 powi 52" using ge le by simp
  then have b52: "binade t \<le> 52" by (rule binade_le [OF t0])
  have q: "q = binade t - 52" using b4 by (simp add: q_def)
  have q0: "q \<le> 0" using b52 by (simp add: q)
  have "(1::real) = 2 powi (- q) * 2 powi q" by (simp flip: power_int_add)
  then have one: "(1::real) = of_int (2 ^ nat (- q)) * 2 powi q"
    using q0 by (simp add: power_int_nonneg_exp)
  have "(20::real) = 20 * (of_int (2 ^ nat (- q)) * 2 powi q)" using one by simp
  then have "t - 20 = of_int (m - 20 * 2 ^ nat (- q)) * 2 powi q"
    using m by (simp add: algebra_simps)
  moreover have "(2::real) powi q = 2 * 2 powi (q - 1)"
    by (simp add: power_int_diff)
  ultimately have rep: "(t - 20) / 2 = of_int (m - 20 * 2 ^ nat (- q)) * 2 powi (q - 1)"
    by simp
  have e: "binade t + 1 = q + 53" by (simp add: q)
  have "\<bar>t\<bar> < 2 powi (q + 53)" using binade_bounds(2) [OF t0] unfolding e .
  then have "t < 2 powi (q + 53)" by linarith
  moreover have "(2::real) powi (q + 53) = 2 * 2 powi (q - 1 + 53)"
    by (simp add: power_int_add)
  ultimately have "\<bar>(t - 20) / 2\<bar> < 2 powi (q - 1 + 53)" using ge by simp
  moreover have "- 1074 \<le> q - 1" using b4 by (simp add: q)
  ultimately show ?thesis by (rule fl_multiple [OF rep])
qed

lemma side_and_plates_exact:
  assumes "20 \<le> w" and "fl ((w - 20) / 2) = (w - 20) / 2" and "(w - 20) / 2 < 2 ^ 55"
  shows "side_and_plates w =
           Some (Inr (py_round_ndigits ((w - 20) / 2) 2,
                      greedy_decomposition ((w - 20) / 2) plate_weights_default))"
proof -
  have pw: "plate_weight w bar_weight_default = Inr ((w - 20) / 2)"
    using assms(1) by (simp add: plate_weight_def bar_weight_default_def)
  have ps: "plate_selection ((w - 20) / 2) plate_weights_default
              = Some (greedy_decomposition ((w - 20) / 2) plate_weights_default)"
    by (rule plate_selection_exact [OF assms(2,3)])
  show ?thesis
    by (simp only: side_and_plates_def pw sum.case ps option.case assms(2))
qed

lemma side_and_plates_error:
  assumes "w < 20"
  shows "side_and_plates w = Some (Inl ValueError)"
  using assms by (simp add: side_and_plates_def plate_weight_def bar_weight_default_def)

lemma side_and_plates_Inr:
  assumes "side_and_plates w = Some (Inr (side, selected))"
  shows "20 \<le> w"
    and "plate_weight w bar_weight_default = Inr ((w - 20) / 2)"
    and "plate_selection (fl ((w - 20) / 2)) plate_weights_default = Some selected"
    and "side = py_round_ndigits (fl ((w - 20) / 2)) 2"
  using assms
  by (auto simp: side_and_plates_def plate_weight_def bar_weight_default_def
      split: if_splits option.splits)

subsection \<open>When \<^verbatim>\<open>get_workout_data\<close> returns\<close>

lemma calculate_warmup_weights_Inr:
  assumes "calculate_warmup_weights (Finite t) = Inr (w45, w65, w85)"
  shows "w45 = py_round (fl (fl (t * fl (45/100)) / 5)) * 5"
    and "w65 = py_round (fl (fl (t * fl (65/100)) / 5)) * 5"
    and "w85 = py_round (fl (fl (t * fl (85/100)) / 5)) * 5"
  using assms by (simp_all add: calculate_warmup_weights.simps Let_def)

text \<open>What a returned plan is made of.\<close>

lemma get_workout_data_returned:
  assumes "get_workout_data (Finite t) = Some (Inr d)"
  shows "\<exists>w45 w65 w85 s45 p45 s65 p65 s85 p85 st pt.
           calculate_warmup_weights (Finite t) = Inr (w45, w65, w85)
         \<and> side_and_plates (of_int w45) = Some (Inr (s45, p45))
         \<and> side_and_plates (of_int w65) = Some (Inr (s65, p65))
         \<and> side_and_plates (of_int w85) = Some (Inr (s85, p85))
         \<and> side_and_plates t = Some (Inr (st, pt))
         \<and> d =
      \<lparr>warmup_sets =
         [\<lparr>set_label = ''2 sets'', reps = 5, weight = 20, weight_per_side = 0,
           plates = PlatesText ''None (just the bar)''\<rparr>,
          \<lparr>set_label = ''1 set'', reps = 5, weight = of_int w45,
           weight_per_side = s45,
           plates = PlatesList p45\<rparr>,
          \<lparr>set_label = ''1 set'', reps = 3, weight = of_int w65,
           weight_per_side = s65,
           plates = PlatesList p65\<rparr>,
          \<lparr>set_label = ''1 set'', reps = 2, weight = of_int w85,
           weight_per_side = s85,
           plates = PlatesList p85\<rparr>],
        target =
          \<lparr>weight_t = t, weight_per_side_t = st,
           plates_t = pt\<rparr>\<rparr>"
  using assms
  by (simp only: get_workout_data.simps split: sum.splits option.splits prod.splits) auto

lemma get_workout_data_first_error:
  assumes "calculate_warmup_weights (Finite t) = Inr (w45, w65, w85)" and "w45 < 20"
  shows "get_workout_data (Finite t) = Some (Inl ValueError)"
proof -
  have "(of_int w45 :: real) < of_int 20" using assms(2) by (simp only: of_int_less_iff)
  then have "side_and_plates (of_int w45) = Some (Inl ValueError)"
    by (intro side_and_plates_error) simp
  then show ?thesis
    by (simp only: get_workout_data.simps assms(1) sum.case prod.case option.case)
qed

text \<open>
  For a double up to \<open>2\<^sup>5\<^sup>2\<close> whose four weights reach the bar weight, every load is a
  double, every subtraction of the plate loops is exact, and the plan is returned.
\<close>

lemma get_workout_data_exact:
  assumes t: "fl t = t" "t \<le> 2 ^ 52"
    and cw: "calculate_warmup_weights (Finite t) = Inr (w45, w65, w85)"
    and ge: "20 \<le> w45" "20 \<le> w65" "20 \<le> w85" "20 \<le> t"
  shows "get_workout_data (Finite t) = Some (Inr
      \<lparr>warmup_sets =
         [\<lparr>set_label = ''2 sets'', reps = 5, weight = 20, weight_per_side = 0,
           plates = PlatesText ''None (just the bar)''\<rparr>,
          \<lparr>set_label = ''1 set'', reps = 5, weight = of_int w45,
           weight_per_side = py_round_ndigits ((of_int w45 - 20) / 2) 2,
           plates = PlatesList (greedy_decomposition ((of_int w45 - 20) / 2) plate_weights_default)\<rparr>,
          \<lparr>set_label = ''1 set'', reps = 3, weight = of_int w65,
           weight_per_side = py_round_ndigits ((of_int w65 - 20) / 2) 2,
           plates = PlatesList (greedy_decomposition ((of_int w65 - 20) / 2) plate_weights_default)\<rparr>,
          \<lparr>set_label = ''1 set'', reps = 2, weight = of_int w85,
           weight_per_side = py_round_ndigits ((of_int w85 - 20) / 2) 2,
           plates = PlatesList (greedy_decomposition ((of_int w85 - 20) / 2) plate_weights_default)\<rparr>],
        target =
          \<lparr>weight_t = t, weight_per_side_t = py_round_ndigits ((t - 20) / 2) 2,
           plates_t = (greedy_decomposition ((t - 20) / 2) plate_weights_default)\<rparr>\<rparr>)"
proof -
  have t0: "0 \<le> t" using ge(4) by simp
  have le: "w45 \<le> 5 * 2 ^ 50" "w65 \<le> 5 * 2 ^ 50" "w85 \<le> 5 * 2 ^ 50"
    unfolding calculate_warmup_weights_Inr [OF cw]
    by (rule warmup_weight_bound [OF t0 t(2)]; rule fl_unit_interval; simp)+
  have s: "side_and_plates (of_int w) =
      Some (Inr (py_round_ndigits ((of_int w - 20) / 2) 2,
        greedy_decomposition ((of_int w - 20) / 2) plate_weights_default))"
    if "20 \<le> w" "w \<le> 5 * 2 ^ 50" for w
  proof (rule side_and_plates_exact)
    show "20 \<le> (of_int w :: real)" using that(1) by simp
  qed (rule int_load_exact [OF that])+
  have "(t - 20) / 2 < 2 ^ 55" using t(2) by simp
  with float_load_exact [OF t(1) ge(4) t(2)] ge(4)
  have st: "side_and_plates t =
      Some (Inr (py_round_ndigits ((t - 20) / 2) 2,
        greedy_decomposition ((t - 20) / 2) plate_weights_default))"
    by (intro side_and_plates_exact)
  show ?thesis
    by (simp only: get_workout_data.simps cw sum.case prod.case option.case
        s [OF ge(1) le(1)] s [OF ge(2) le(2)] s [OF ge(3) le(3)] st)
qed

lemma get_workout_data_100:
  "get_workout_data (Finite 100) = Some (Inr
     \<lparr>warmup_sets =
        [\<lparr>set_label = ''2 sets'', reps = 5, weight = 20, weight_per_side = 0,
          plates = PlatesText ''None (just the bar)''\<rparr>,
         \<lparr>set_label = ''1 set'', reps = 5, weight = 45,
          weight_per_side = 25/2,
          plates = PlatesList [10, 5/2]\<rparr>,
         \<lparr>set_label = ''1 set'', reps = 3, weight = 65,
          weight_per_side = 45/2,
          plates = PlatesList [20, 5/2]\<rparr>,
         \<lparr>set_label = ''1 set'', reps = 2, weight = 85,
          weight_per_side = 65/2,
          plates = PlatesList [20, 10, 5/2]\<rparr>],
       target =
         \<lparr>weight_t = 100, weight_per_side_t = 40,
          plates_t = [20, 20]\<rparr>\<rparr>)"
  by code_simp

text \<open>
  The bound on the target is needed. At the double \<open>2\<^sup>5\<^sup>6 + 80\<close> the load per side of
  the target is \<open>2\<^sup>5\<^sup>5 + 30\<close>, held as the double \<open>2\<^sup>5\<^sup>5 + 32\<close>; the first subtraction
  of 20 gives the double \<open>2\<^sup>5\<^sup>5 + 16\<close>, the later ones are exact, and the plates
  selected weigh \<open>2\<^sup>5\<^sup>5 + 34.5\<close>, more than the load.
\<close>

lemma side_and_plates_rounded:
  assumes "20 \<le> w" and "fl ((w - 20) / 2) = c" and "fl c = c" and "c < 2 ^ 55"
  shows "side_and_plates w =
           Some (Inr (py_round_ndigits c 2, greedy_decomposition c plate_weights_default))"
proof -
  have pw: "plate_weight w bar_weight_default = Inr ((w - 20) / 2)"
    using assms(1) by (simp add: plate_weight_def bar_weight_default_def)
  have ps: "plate_selection c plate_weights_default
              = Some (greedy_decomposition c plate_weights_default)"
    by (rule plate_selection_exact [OF assms(3,4)])
  show ?thesis
    by (simp only: side_and_plates_def pw sum.case assms(2) ps option.case)
qed

lemma sum_property_needs_bound:
  "(72057594037928016::real) = 2 ^ 56 + 80 \<and> (36028797018963998::real) = 2 ^ 55 + 30
   \<and> is_float 72057594037928016
   \<and> (\<exists>d. get_workout_data (Finite 72057594037928016) = Some (Inr d)
          \<and> plate_weight (weight_t (target d)) bar_weight_default = Inr 36028797018963998
          \<and> sum_list (plates_t (target d)) = 36028797018963998 + 9/2)"
proof -
  have f: "is_float 72057594037928016" by code_simp
  have cw: "calculate_warmup_weights (Finite 72057594037928016)
              = Inr (32425917317067610, 46837436124653220, 61248954932238810)"
    by code_simp
  have s45: "side_and_plates (of_int 32425917317067610) =
      Some (Inr (py_round_ndigits 16212958658533796 2,
                 greedy_decomposition 16212958658533796 plate_weights_default))"
    by (rule side_and_plates_rounded) (simp, code_simp, code_simp, simp)
  have s65: "side_and_plates (of_int 46837436124653220) =
      Some (Inr (py_round_ndigits 23418718062326600 2,
                 greedy_decomposition 23418718062326600 plate_weights_default))"
    by (rule side_and_plates_rounded) (simp, code_simp, code_simp, simp)
  have s85: "side_and_plates (of_int 61248954932238810) =
      Some (Inr (py_round_ndigits 30624477466119396 2,
                 greedy_decomposition 30624477466119396 plate_weights_default))"
    by (rule side_and_plates_rounded) (simp, code_simp, code_simp, simp)
  have pw: "plate_weight 72057594037928016 bar_weight_default = Inr 36028797018963998"
    by (simp add: plate_weight_def bar_weight_default_def)
  have r0: "fl 36028797018963998 = 36028797018964000" by code_simp
  have r1: "fl (36028797018964000 - 20) = 36028797018963984" by code_simp
  have r2: "fl (36028797018963984 - 20) = 36028797018963964" by code_simp
  have r3: "fl 36028797018963964 = 36028797018963964" by code_simp
  have "plate_loop 20 36028797018964000 [] = plate_loop 20 (fl (36028797018964000 - 20)) ([] @ [20])"
    by (subst plate_loop.simps) simp
  also have "\<dots> = plate_loop 20 36028797018963984 [20]" by (simp only: r1 append_Nil)
  also have "\<dots> = plate_loop 20 (fl (36028797018963984 - 20)) ([20] @ [20])"
    by (subst plate_loop.simps) simp
  also have "\<dots> = plate_loop 20 36028797018963964 [20, 20]" by (simp only: r2 append.simps)
  finally have "plate_for plate_weights_default 36028797018964000 []
                  = plate_for plate_weights_default 36028797018963964 [20, 20]"
    by (simp add: plate_weights_default_def)
  also have "\<dots> = Some ([20, 20] @ greedy_decomposition 36028797018963964 plate_weights_default)"
    by (rule plate_for_exact [OF r3]) simp
  finally have ps: "plate_selection 36028797018964000 plate_weights_default
      = Some ([20, 20] @ greedy_decomposition 36028797018963964 plate_weights_default)"
    by (simp add: plate_selection_def)
  have st: "side_and_plates 72057594037928016 =
      Some (Inr (py_round_ndigits 36028797018964000 2,
                 [20, 20] @ greedy_decomposition 36028797018963964 plate_weights_default))"
    by (simp only: side_and_plates_def pw sum.case r0 ps option.case)
  have fl: "\<lfloor>36028797018963964 / (5/2 :: real)\<rfloor> = 14411518807585585"
    by (rule floor_unique) simp_all
  have "sum_list (greedy_decomposition 36028797018963964 plate_weights_default)
          = of_nat (nat \<lfloor>36028797018963964 / (5/2 :: real)\<rfloor>) * (5/2)"
    by (rule greedy_default_sum) simp
  then have "sum_list (greedy_decomposition 36028797018963964 plate_weights_default) = 36028797018963998 - 71/2"
    unfolding fl by simp
  then have total:
    "sum_list ([20, 20] @ greedy_decomposition 36028797018963964 plate_weights_default) = 36028797018963998 + 9/2"
    by simp
  have g: "get_workout_data (Finite 72057594037928016) = Some (Inr
      \<lparr>warmup_sets =
         [\<lparr>set_label = ''2 sets'', reps = 5, weight = 20, weight_per_side = 0,
           plates = PlatesText ''None (just the bar)''\<rparr>,
          \<lparr>set_label = ''1 set'', reps = 5, weight = of_int 32425917317067610,
           weight_per_side = py_round_ndigits 16212958658533796 2,
           plates = PlatesList
             (greedy_decomposition 16212958658533796 plate_weights_default)\<rparr>,
          \<lparr>set_label = ''1 set'', reps = 3, weight = of_int 46837436124653220,
           weight_per_side = py_round_ndigits 23418718062326600 2,
           plates = PlatesList
             (greedy_decomposition 23418718062326600 plate_weights_default)\<rparr>,
          \<lparr>set_label = ''1 set'', reps = 2, weight = of_int 61248954932238810,
           weight_per_side = py_round_ndigits 30624477466119396 2,
           plates = PlatesList
             (greedy_decomposition 30624477466119396 plate_weights_default)\<rparr>],
        target =
          \<lparr>weight_t = 72057594037928016, weight_per_side_t = py_round_ndigits 36028797018964000 2,
           plates_t = [20, 20] @ greedy_decomposition 36028797018963964 plate_weights_default\<rparr>\<rparr>)"
    by (simp only: get_workout_data.simps cw sum.case prod.case s45 s65 s85 st option.case)
  have "\<exists>d. get_workout_data (Finite 72057594037928016) = Some (Inr d)
          \<and> plate_weight (weight_t (target d)) bar_weight_default = Inr 36028797018963998
          \<and> sum_list (plates_t (target d)) = 36028797018963998 + 9/2"
    by (rule exI, rule conjI, rule g) (simp only: workout_data.simps target_set.simps pw total)
  with f show ?thesis by simp
qed

lemma plate_selection_stuck:
  assumes "20 \<le> w" and "fl (w - 20) = w"
  shows "plate_selection w plate_weights_default = None"
  by (simp add: plate_selection_def plate_weights_default_def
      plate_loop_stuck [OF assms])

lemma unit_count_le_aux:
  "m = 8 * a + 4 * b + 2 * c + d \<Longrightarrow> a + b + c + d \<le> (m::nat)"
  by simp

lemma unit_count_le: "unit_count m \<le> m"
  unfolding unit_count_def by (rule unit_count_le_aux [OF unit_sum])

section \<open>Load per side\<close>




section \<open>Warmup weights\<close>

text \<open>
  Claim C3. For every (finite) target weight \<open>t\<close>, \<^verbatim>\<open>calculate_warmup_weights(t)\<close>
  returns the triple of \<open>round(t * pct / 5) * 5\<close> for the percentages 0.45, 0.65 and
  0.85, where the product and the quotient are the program's doubles and \<open>round\<close> is
  the nearest integer, a halfway case to the even one. The target 100 gives
  (45, 65, 85), the target 140 gives (65, 90, 120), and the double written
  38.888888888888886, whose quotient at 45% is the double 3.5, gives (20, 25, 35).
\<close>

theorem calculate_warmup_weights_spec:
  "calculate_warmup_weights (Finite t) =
     Inr (round_half_even (fl (fl (t * fl (45/100)) / 5)) * 5,
          round_half_even (fl (fl (t * fl (65/100)) / 5)) * 5,
          round_half_even (fl (fl (t * fl (85/100)) / 5)) * 5)
   \<and> calculate_warmup_weights (Finite 100) = Inr (45, 65, 85)
   \<and> calculate_warmup_weights (Finite 140) = Inr (65, 90, 120)
   \<and> calculate_warmup_weights (Finite (fl 38.888888888888886)) = Inr (20, 25, 35)"
proof -
  have "calculate_warmup_weights (Finite 100) = Inr (45, 65, 85)" by code_simp
  moreover have "calculate_warmup_weights (Finite 140) = Inr (65, 90, 120)" by code_simp
  moreover have "calculate_warmup_weights (Finite (fl 38.888888888888886)) = Inr (20, 25, 35)"
    by code_simp
  moreover have "calculate_warmup_weights (Finite t) =
     Inr (round_half_even (fl (fl (t * fl (45/100)) / 5)) * 5,
          round_half_even (fl (fl (t * fl (65/100)) / 5)) * 5,
          round_half_even (fl (fl (t * fl (85/100)) / 5)) * 5)"
    by (simp add: calculate_warmup_weights.simps Let_def py_round_half_even)
  ultimately show ?thesis by blast
qed

text \<open>
  Claim C6, as amended. The rounding of \<^verbatim>\<open>calculate_warmup_weights\<close> is
  round-half-to-even, applied to the double that the program computes for
  \<open>t * pct / 5\<close>: \<^verbatim>\<open>round\<close> of a double is the nearest integer, a halfway case the
  even one, and each warmup weight is five times it. The target 50 at 45% gives the
  double 4.5, which rounds to 4, and the warmup weight 20; the double written
  2.9411764705882355 at 85% gives the double 0.5, which rounds to 0.
\<close>

theorem calculate_warmup_weights_half_even:
  "py_round x = round_half_even x
   \<and> (\<exists>q45 q65 q85.
         q45 = fl (fl (t * fl (45/100)) / 5) \<and> q65 = fl (fl (t * fl (65/100)) / 5)
       \<and> q85 = fl (fl (t * fl (85/100)) / 5)
       \<and> calculate_warmup_weights (Finite t)
           = Inr (round_half_even q45 * 5, round_half_even q65 * 5, round_half_even q85 * 5))
   \<and> fl (fl (50 * fl (45/100)) / 5) = 9/2
   \<and> round_half_even (9/2) = 4
   \<and> calculate_warmup_weights (Finite 50) = Inr (20, 30, 40)
   \<and> fl (fl (fl 2.9411764705882355 * fl (85/100)) / 5) = 1/2
   \<and> calculate_warmup_weights (Finite (fl 2.9411764705882355)) = Inr (0, 0, 0)"
proof -
  have "fl (fl (50 * fl (45/100)) / 5) = 9/2" by code_simp
  moreover have "round_half_even (9/2) = 4" by (simp add: round_half_even_def)
  moreover have "calculate_warmup_weights (Finite 50) = Inr (20, 30, 40)" by code_simp
  moreover have "fl (fl (fl 2.9411764705882355 * fl (85/100)) / 5) = 1/2" by code_simp
  moreover have "calculate_warmup_weights (Finite (fl 2.9411764705882355)) = Inr (0, 0, 0)"
    by code_simp
  moreover have "calculate_warmup_weights (Finite t) =
     Inr (round_half_even (fl (fl (t * fl (45/100)) / 5)) * 5,
          round_half_even (fl (fl (t * fl (65/100)) / 5)) * 5,
          round_half_even (fl (fl (t * fl (85/100)) / 5)) * 5)"
    by (simp add: calculate_warmup_weights.simps Let_def py_round_half_even)
  ultimately show ?thesis using py_round_half_even [of x] by blast
qed

text \<open>
  Claim C6, as stated, fails at the target 50: the quotient is the halfway case 4.5,
  rounding it away from zero gives 5 and the weight 25, and the program returns 20.
\<close>

theorem calculate_warmup_weights_half_away_counterexample:
  "map_sum id fst (calculate_warmup_weights (Finite 50)) = Inr 20
   \<and> fl (fl (50 * fl (45/100)) / 5) = 9/2
   \<and> c_round (9/2) * 5 = 25"
proof -
  have "calculate_warmup_weights (Finite 50) = Inr (20, 30, 40)" by code_simp
  moreover have "fl (fl (50 * fl (45/100)) / 5) = 9/2" by code_simp
  moreover have "c_round (9/2) * 5 = 25" by (simp add: c_round_def)
  ultimately show ?thesis by simp
qed

section \<open>Plate selection\<close>

text \<open>
  Claim C1, as amended. For every input weight \<open>w\<close> that is a double below \<open>2\<^sup>5\<^sup>5\<close>,
  non-negative or not, \<^verbatim>\<open>plate_selection(w)\<close> with the default
  plates [20, 10, 5, 2.5] returns the greedy decomposition: the plates from the largest
  to the smallest, each as often as it fits into the remaining weight. The weight 40
  gives [20, 20], 42.5 gives [20, 20, 2.5], 3 gives [2.5], and every zero or negative
  weight gives the empty list.
\<close>

theorem plate_selection_spec:
  "(is_float w \<and> w < 2 ^ 55 \<longrightarrow>
      plate_selection w plate_weights_default
        = Some (greedy_decomposition w plate_weights_default))
   \<and> plate_selection 40 plate_weights_default = Some [20, 20]
   \<and> plate_selection (85/2) plate_weights_default = Some [20, 20, 5/2]
   \<and> plate_selection 3 plate_weights_default = Some [5/2]
   \<and> plate_selection 0 plate_weights_default = Some []
   \<and> (w \<le> 0 \<longrightarrow> plate_selection w plate_weights_default = Some [])"
proof -
  have "plate_selection 40 plate_weights_default = Some [20, 20]" by code_simp
  moreover have "plate_selection (85/2) plate_weights_default = Some [20, 20, 5/2]"
    by code_simp
  moreover have "plate_selection 3 plate_weights_default = Some [5/2]" by code_simp
  moreover have "plate_selection 0 plate_weights_default = Some []" by code_simp
  moreover have "plate_selection w plate_weights_default
        = Some (greedy_decomposition w plate_weights_default)" if "is_float w" "w < 2 ^ 55"
    using that by (intro plate_selection_exact) (simp_all add: is_float_def)
  moreover have "plate_selection w plate_weights_default = Some []" if "w \<le> 0"
    by (rule plate_selection_nonpos [OF that])
  ultimately show ?thesis by blast
qed

theorem plate_selection_spec_witness:
  "is_float (85/2) \<and> (85/2::real) < 2 ^ 55
   \<and> plate_selection (85/2) plate_weights_default
       = Some (greedy_decomposition (85/2) plate_weights_default)
   \<and> greedy_decomposition (85/2) plate_weights_default = [20, 20, 5/2]
   \<and> (-3::real) \<le> 0 \<and> plate_selection (-3) plate_weights_default = Some []"
proof -
  have f: "is_float (85/2)" by code_simp
  have b: "(85/2::real) < 2 ^ 55" by simp
  have g: "greedy_decomposition (85/2) plate_weights_default = [20, 20, 5/2]" by code_simp
  have n: "(-3::real) \<le> 0" by simp
  from plate_selection_spec [of "85/2"] plate_selection_spec [of "-3"] f b g n
  show ?thesis by blast
qed

text \<open>
  Claim C1, as stated, fails at the non-negative weight \<open>2\<^sup>6\<^sup>0\<close>, a double: subtracting
  20 gives back the same double, and the call does not return.
\<close>

theorem plate_selection_spec_counterexample:
  "(0::real) \<le> 2 ^ 60 \<and> is_float (2 ^ 60) \<and> fl (2 ^ 60 - 20) = 2 ^ 60
   \<and> plate_selection (2 ^ 60) plate_weights_default = None"
proof -
  have f: "is_float (2 ^ 60)" by code_simp
  have s: "fl (2 ^ 60 - 20) = 2 ^ 60" by code_simp
  have "plate_selection (2 ^ 60) plate_weights_default = None"
    by (rule plate_selection_stuck [OF _ s]) simp
  with f s show ?thesis by simp
qed

text \<open>
  Claim C10, as amended. For every input weight that is a double below \<open>2\<^sup>5\<^sup>5\<close>,
  \<^verbatim>\<open>plate_selection\<close> with the default plates returns, after at most \<open>w / 2.5\<close>
  subtractions: there every subtraction is exact and takes a whole plate off the
  remaining weight.
\<close>

theorem plate_selection_terminates:
  "is_float w \<and> w < 2 ^ 55 \<longrightarrow>
     (\<exists>selected. plate_selection w plate_weights_default = Some selected
        \<and> length selected \<le> nat \<lfloor>w / (5/2)\<rfloor>)"
proof (intro impI, elim conjE)
  assume w: "is_float w" "w < 2 ^ 55"
  have sel: "plate_selection w plate_weights_default
               = Some (greedy_decomposition w plate_weights_default)"
    using w by (intro plate_selection_exact) (simp_all add: is_float_def)
  have "length (greedy_decomposition w plate_weights_default) \<le> nat \<lfloor>w / (5/2)\<rfloor>"
  proof (cases "0 \<le> w")
    case True
    then show ?thesis by (simp only: greedy_default_length unit_count_le)
  next
    case False
    then have "w \<le> 0" by simp
    then show ?thesis by (simp only: greedy_default_nonpos list.size le0)
  qed
  with sel show "\<exists>selected. plate_selection w plate_weights_default = Some selected
        \<and> length selected \<le> nat \<lfloor>w / (5/2)\<rfloor>" by blast
qed

theorem plate_selection_terminates_witness:
  "is_float 100 \<and> (100::real) < 2 ^ 55
   \<and> (\<exists>selected. plate_selection 100 plate_weights_default = Some selected
         \<and> length selected \<le> 40)"
proof -
  have f: "is_float 100" by code_simp
  have b: "(100::real) < 2 ^ 55" by simp
  have n: "nat \<lfloor>(100::real) / (5/2)\<rfloor> = 40" by simp
  from plate_selection_terminates [of 100] f b show ?thesis unfolding n by blast
qed

text \<open>
  Claim C10, as stated, fails at the weight \<open>2\<^sup>7\<^sup>0\<close>, a double: the subtraction does
  not decrease the remaining weight, and the loop over the default plates never ends.
\<close>

theorem plate_selection_terminates_counterexample:
  "is_float (2 ^ 70) \<and> fl (2 ^ 70 - 20) = 2 ^ 70
   \<and> plate_selection (2 ^ 70) plate_weights_default = None"
proof -
  have f: "is_float (2 ^ 70)" by code_simp
  have s: "fl (2 ^ 70 - 20) = 2 ^ 70" by code_simp
  have "plate_selection (2 ^ 70) plate_weights_default = None"
    by (rule plate_selection_stuck [OF _ s]) simp
  with f s show ?thesis by simp
qed

text \<open>
  Claim C5, as amended. For every non-negative weight \<open>w\<close> that is a double below
  \<open>2\<^sup>5\<^sup>5\<close>, \<^verbatim>\<open>plate_selection(w)\<close> over the default denominations returns a selection
  of these denominations of total at most \<open>w\<close>; every multiset of these denominations
  of total at most \<open>w\<close> has a total no larger than theirs, and one with the same
  total has at least as many plates.
\<close>

theorem plate_selection_optimal:
  assumes "is_float w" and "0 \<le> w" and "w < 2 ^ 55"
  shows "\<exists>selected. plate_selection w plate_weights_default = Some selected
         \<and> set selected \<subseteq> set plate_weights_default \<and> sum_list selected \<le> w
         \<and> (\<forall>M. set_mset M \<subseteq> set plate_weights_default \<and> sum_mset M \<le> w
               \<longrightarrow> sum_mset M \<le> sum_list selected
                   \<and> (sum_mset M = sum_list selected \<longrightarrow> length selected \<le> size M))"
proof -
  define selected where "selected = greedy_decomposition w plate_weights_default"
  define x where "x = w / (5/2)"
  define m where "m = nat \<lfloor>x\<rfloor>"
  have w: "w = x * (5/2)" by (simp add: x_def)
  have sel: "plate_selection w plate_weights_default = Some selected"
    unfolding selected_def using assms(1,3)
    by (intro plate_selection_exact) (simp_all add: is_float_def)
  have total: "sum_list selected = of_nat m * (5/2)"
    unfolding selected_def m_def x_def by (rule greedy_default_sum [OF assms(2)])
  have len: "length selected = unit_count m"
    unfolding selected_def m_def x_def by (rule greedy_default_length [OF assms(2)])
  have nn: "0 \<le> x" using assms(2) by (simp add: x_def)
  then have "(of_nat m :: real) = of_int \<lfloor>x\<rfloor>" by (simp add: m_def)
  then have m_le: "of_nat m \<le> x" by simp
  have feasible: "sum_list selected \<le> w"
    using m_le by (simp add: total w)
  have best: "sum_mset M \<le> sum_list selected
               \<and> (sum_mset M = sum_list selected \<longrightarrow> length selected \<le> size M)"
    if M: "set_mset M \<subseteq> set plate_weights_default" "sum_mset M \<le> w" for M
  proof -
    obtain ps where ps: "M = mset ps" using ex_mset [of M] by auto
    have "set ps \<subseteq> set plate_weights_default" using M(1) by (simp add: ps)
    from denominations_units [OF this] obtain n :: nat
      where n: "sum_list ps = of_nat n * (5/2)" "unit_count n \<le> length ps" by blast
    have sm: "sum_mset M = of_nat n * (5/2)" by (simp add: ps sum_mset_sum_list n(1))
    have "of_nat n \<le> x" using M(2) by (simp add: sm w)
    then have "int n \<le> \<lfloor>x\<rfloor>" by (simp add: le_floor_iff)
    then have nm: "n \<le> m" by (simp add: m_def)
    then have "(of_nat n :: real) \<le> of_nat m" by simp
    then have le: "sum_mset M \<le> sum_list selected" by (simp add: sm total)
    have "length selected \<le> size M" if "sum_mset M = sum_list selected"
    proof -
      from that have "(of_nat n :: real) = of_nat m" by (simp add: sm total)
      then have "n = m" by (simp only: of_nat_eq_iff)
      then show ?thesis using n(2) by (simp add: len ps)
    qed
    with le show ?thesis by blast
  qed
  have "set selected \<subseteq> set plate_weights_default"
    unfolding selected_def by (rule greedy_default_set)
  with sel feasible best show ?thesis by blast
qed

theorem plate_selection_optimal_witness:
  "is_float 30 \<and> (0::real) \<le> 30 \<and> (30::real) < 2 ^ 55
   \<and> plate_selection 30 plate_weights_default = Some [20, 10]
   \<and> sum_mset {#10, 10, 10::real#} = sum_list [20, 10]
   \<and> length [20, 10::real] \<le> size {#10, 10, 10::real#}
   \<and> sum_mset {#20, 5::real#} \<le> sum_list [20, 10]"
proof -
  have f: "is_float 30" by code_simp
  have sel: "plate_selection 30 plate_weights_default = Some [20, 10]" by code_simp
  from plate_selection_optimal [OF f, of ] obtain selected
    where s: "plate_selection 30 plate_weights_default = Some selected"
      and best: "\<forall>M. set_mset M \<subseteq> set plate_weights_default \<and> sum_mset M \<le> 30
               \<longrightarrow> sum_mset M \<le> sum_list selected
                   \<and> (sum_mset M = sum_list selected \<longrightarrow> length selected \<le> size M)"
    by auto
  from s sel have e: "selected = [20, 10]" by simp
  have "set_mset {#10, 10, 10::real#} \<subseteq> set plate_weights_default
          \<and> sum_mset {#10, 10, 10::real#} \<le> 30"
    by (simp add: plate_weights_default_def)
  with best have "sum_mset {#10, 10, 10::real#} = sum_list selected
                    \<longrightarrow> length selected \<le> size {#10, 10, 10::real#}" by blast
  moreover have "set_mset {#20, 5::real#} \<subseteq> set plate_weights_default
          \<and> sum_mset {#20, 5::real#} \<le> 30"
    by (simp add: plate_weights_default_def)
  with best have "sum_mset {#20, 5::real#} \<le> sum_list selected" by blast
  ultimately show ?thesis using f sel unfolding e by simp
qed

text \<open>
  Claim C5, as stated, fails at the non-negative weight \<open>2\<^sup>6\<^sup>5\<close>, a double: the call
  does not return, so there is no selection of plates at all.
\<close>

theorem plate_selection_optimal_counterexample:
  "(0::real) \<le> 2 ^ 65 \<and> is_float (2 ^ 65) \<and> fl (2 ^ 65 - 20) = 2 ^ 65
   \<and> plate_selection (2 ^ 65) plate_weights_default = None"
proof -
  have f: "is_float (2 ^ 65)" by code_simp
  have s: "fl (2 ^ 65 - 20) = 2 ^ 65" by code_simp
  have "plate_selection (2 ^ 65) plate_weights_default = None"
    by (rule plate_selection_stuck [OF _ s]) simp
  with f s show ?thesis by simp
qed

section \<open>The workout plan\<close>

text \<open>
  Claim C9. There are targets at or above the bar weight at which \<^verbatim>\<open>get_workout_data\<close>
  raises: at the target 30 the warmup weights are 15, 20 and 25, the load of the
  target itself is 5, and the load of the 45% warmup weight 15 raises, so the call raises.
  The targets that raise are not only those below 20.
\<close>

theorem get_workout_data_raises_above_bar:
  "(20::real) \<le> 30
   \<and> calculate_warmup_weights (Finite 30) = Inr (15, 20, 25)
   \<and> plate_weight 30 bar_weight_default = Inr 5
   \<and> plate_weight 15 bar_weight_default = Inl ValueError
   \<and> get_workout_data (Finite 30) = Some (Inl ValueError)
   \<and> (\<exists>t. is_float t \<and> 20 \<le> t \<and> get_workout_data (Finite t) = Some (Inl ValueError))"
proof -
  have w: "calculate_warmup_weights (Finite 30) = Inr (15, 20, 25)" by code_simp
  have g: "get_workout_data (Finite 30) = Some (Inl ValueError)"
    by (rule get_workout_data_first_error [OF w]) simp
  have f: "is_float 30" by code_simp
  have "is_float 30 \<and> (20::real) \<le> 30 \<and> get_workout_data (Finite 30) = Some (Inl ValueError)"
    using f g by simp
  then have "\<exists>t. is_float t \<and> 20 \<le> t \<and> get_workout_data (Finite t) = Some (Inl ValueError)"
    by (rule exI)
  with w g show ?thesis
    by (simp add: plate_weight_def bar_weight_default_def)
qed

text \<open>
  Claim C4, as amended. Let \<open>w45\<close>, \<open>w65\<close> and \<open>w85\<close> be the warmup weights of the
  target \<open>t\<close>. If \<open>w45\<close> is below the bar weight 20, \<^verbatim>\<open>get_workout_data(t)\<close> raises.
  If a plan is returned, then the three warmup weights and the target are at least 20
  and the plan is the four warmup entries and the target entry in the fixed order bar
  only, 45%, 65%, 85%, target, with the repetitions 5, 5, 3, 2 on the warmup entries;
  each entry but the first carries its total weight, the load per side rounded to two
  places and the plates selected for the load per side. If \<open>t\<close> is a double up to
  \<open>2\<^sup>5\<^sup>2\<close> and the three warmup weights and \<open>t\<close> are at least 20, a plan is returned.
\<close>

theorem get_workout_data_plan:
  assumes "calculate_warmup_weights (Finite t) = Inr (w45, w65, w85)"
  shows "(w45 < 20 \<longrightarrow> get_workout_data (Finite t) = Some (Inl ValueError))
       \<and> ((\<exists>d. get_workout_data (Finite t) = Some (Inr d)) \<longrightarrow>
            20 \<le> w45 \<and> 20 \<le> w65 \<and> 20 \<le> w85 \<and> 20 \<le> t
          \<and> (\<exists>l45 l65 l85 lt p45 p65 p85 pt.
               plate_weight (of_int w45) bar_weight_default = Inr l45
             \<and> plate_weight (of_int w65) bar_weight_default = Inr l65
             \<and> plate_weight (of_int w85) bar_weight_default = Inr l85
             \<and> plate_weight t bar_weight_default = Inr lt
             \<and> plate_selection (fl l45) plate_weights_default = Some p45
             \<and> plate_selection (fl l65) plate_weights_default = Some p65
             \<and> plate_selection (fl l85) plate_weights_default = Some p85
             \<and> plate_selection (fl lt) plate_weights_default = Some pt
             \<and> get_workout_data (Finite t) = Some (Inr
      \<lparr>warmup_sets =
         [\<lparr>set_label = ''2 sets'', reps = 5, weight = 20, weight_per_side = 0,
           plates = PlatesText ''None (just the bar)''\<rparr>,
          \<lparr>set_label = ''1 set'', reps = 5, weight = of_int w45,
           weight_per_side = py_round_ndigits (fl l45) 2,
           plates = PlatesList p45\<rparr>,
          \<lparr>set_label = ''1 set'', reps = 3, weight = of_int w65,
           weight_per_side = py_round_ndigits (fl l65) 2,
           plates = PlatesList p65\<rparr>,
          \<lparr>set_label = ''1 set'', reps = 2, weight = of_int w85,
           weight_per_side = py_round_ndigits (fl l85) 2,
           plates = PlatesList p85\<rparr>],
        target =
          \<lparr>weight_t = t, weight_per_side_t = py_round_ndigits (fl lt) 2,
           plates_t = pt\<rparr>\<rparr>)))
       \<and> (is_float t \<and> t \<le> 2 ^ 52 \<and> 20 \<le> w45 \<and> 20 \<le> w65 \<and> 20 \<le> w85 \<and> 20 \<le> t \<longrightarrow>
            (\<exists>d. get_workout_data (Finite t) = Some (Inr d)))"
proof (intro conjI impI)
  assume "w45 < 20"
  then show "get_workout_data (Finite t) = Some (Inl ValueError)"
    by (rule get_workout_data_first_error [OF assms])
next
  assume "is_float t \<and> t \<le> 2 ^ 52 \<and> 20 \<le> w45 \<and> 20 \<le> w65 \<and> 20 \<le> w85 \<and> 20 \<le> t"
  then have "fl t = t" "t \<le> 2 ^ 52" "20 \<le> w45" "20 \<le> w65" "20 \<le> w85" "20 \<le> t"
    by (simp_all add: is_float_def)
  from get_workout_data_exact [OF this(1,2) assms this(3-6)]
  show "\<exists>d. get_workout_data (Finite t) = Some (Inr d)" by blast
next
  assume "\<exists>d. get_workout_data (Finite t) = Some (Inr d)"
  then obtain d where d: "get_workout_data (Finite t) = Some (Inr d)" by blast
  from get_workout_data_returned [OF d] assms obtain s45 p45 s65 p65 s85 p85 st pt
    where s: "side_and_plates (of_int w45) = Some (Inr (s45, p45))"
      "side_and_plates (of_int w65) = Some (Inr (s65, p65))"
      "side_and_plates (of_int w85) = Some (Inr (s85, p85))"
      "side_and_plates t = Some (Inr (st, pt))"
      and dd: "d =
      \<lparr>warmup_sets =
         [\<lparr>set_label = ''2 sets'', reps = 5, weight = 20, weight_per_side = 0,
           plates = PlatesText ''None (just the bar)''\<rparr>,
          \<lparr>set_label = ''1 set'', reps = 5, weight = of_int w45,
           weight_per_side = s45,
           plates = PlatesList p45\<rparr>,
          \<lparr>set_label = ''1 set'', reps = 3, weight = of_int w65,
           weight_per_side = s65,
           plates = PlatesList p65\<rparr>,
          \<lparr>set_label = ''1 set'', reps = 2, weight = of_int w85,
           weight_per_side = s85,
           plates = PlatesList p85\<rparr>],
        target =
          \<lparr>weight_t = t, weight_per_side_t = st,
           plates_t = pt\<rparr>\<rparr>"
    by auto
  note a = side_and_plates_Inr [OF s(1)] and b = side_and_plates_Inr [OF s(2)]
    and c = side_and_plates_Inr [OF s(3)] and e = side_and_plates_Inr [OF s(4)]
  show "20 \<le> w45" using a(1) by simp
  show "20 \<le> w65" using b(1) by simp
  show "20 \<le> w85" using c(1) by simp
  show "20 \<le> t" by (rule e(1))
  show "\<exists>l45 l65 l85 lt p45 p65 p85 pt.
               plate_weight (of_int w45) bar_weight_default = Inr l45
             \<and> plate_weight (of_int w65) bar_weight_default = Inr l65
             \<and> plate_weight (of_int w85) bar_weight_default = Inr l85
             \<and> plate_weight t bar_weight_default = Inr lt
             \<and> plate_selection (fl l45) plate_weights_default = Some p45
             \<and> plate_selection (fl l65) plate_weights_default = Some p65
             \<and> plate_selection (fl l85) plate_weights_default = Some p85
             \<and> plate_selection (fl lt) plate_weights_default = Some pt
             \<and> get_workout_data (Finite t) = Some (Inr
      \<lparr>warmup_sets =
         [\<lparr>set_label = ''2 sets'', reps = 5, weight = 20, weight_per_side = 0,
           plates = PlatesText ''None (just the bar)''\<rparr>,
          \<lparr>set_label = ''1 set'', reps = 5, weight = of_int w45,
           weight_per_side = py_round_ndigits (fl l45) 2,
           plates = PlatesList p45\<rparr>,
          \<lparr>set_label = ''1 set'', reps = 3, weight = of_int w65,
           weight_per_side = py_round_ndigits (fl l65) 2,
           plates = PlatesList p65\<rparr>,
          \<lparr>set_label = ''1 set'', reps = 2, weight = of_int w85,
           weight_per_side = py_round_ndigits (fl l85) 2,
           plates = PlatesList p85\<rparr>],
        target =
          \<lparr>weight_t = t, weight_per_side_t = py_round_ndigits (fl lt) 2,
           plates_t = pt\<rparr>\<rparr>)"
    using a(2-4) b(2-4) c(2-4) e(2-4) d unfolding dd by blast
qed

theorem get_workout_data_plan_witness:
  "calculate_warmup_weights (Finite 100) = Inr (45, 65, 85)
   \<and> is_float 100 \<and> (100::real) \<le> 2 ^ 52
   \<and> (20::int) \<le> 45 \<and> (20::int) \<le> 65 \<and> (20::int) \<le> 85 \<and> (20::real) \<le> 100
   \<and> (\<exists>d. get_workout_data (Finite 100) = Some (Inr d) \<and> length (warmup_sets d) = 4
          \<and> map reps (warmup_sets d) = [5, 5, 3, 2] \<and> weight_t (target d) = 100)
   \<and> calculate_warmup_weights (Finite 30) = Inr (15, 20, 25) \<and> (15::int) < 20
   \<and> get_workout_data (Finite 30) = Some (Inl ValueError)"
proof -
  have w: "calculate_warmup_weights (Finite 100) = Inr (45, 65, 85)" by code_simp
  have v: "calculate_warmup_weights (Finite 30) = Inr (15, 20, 25)" by code_simp
  have f: "is_float 100" by code_simp
  from get_workout_data_plan [OF w] f
  have "\<exists>d. get_workout_data (Finite 100) = Some (Inr d)" by simp
  with get_workout_data_plan [OF w]
  have "\<exists>d. get_workout_data (Finite 100) = Some (Inr d) \<and> length (warmup_sets d) = 4
          \<and> map reps (warmup_sets d) = [5, 5, 3, 2] \<and> weight_t (target d) = 100"
    by auto
  moreover from get_workout_data_plan [OF v]
  have "get_workout_data (Finite 30) = Some (Inl ValueError)" by simp
  ultimately show ?thesis using w v f by simp
qed

text \<open>
  Claim C4, as stated, fails at the positive target 30, where the call raises.
\<close>

theorem get_workout_data_plan_counterexample:
  "(0::real) < 30 \<and> is_float 30 \<and> get_workout_data (Finite 30) = Some (Inl ValueError)"
proof -
  have w: "calculate_warmup_weights (Finite 30) = Inr (15, 20, 25)" by code_simp
  have "get_workout_data (Finite 30) = Some (Inl ValueError)"
    by (rule get_workout_data_first_error [OF w]) simp
  moreover have "is_float 30" by code_simp
  ultimately show ?thesis by simp
qed

text \<open>
  Claim C8, as amended. For every target for which \<^verbatim>\<open>get_workout_data\<close> returns a
  plan, the first (bar-only) entry has 5 repetitions, the label "2 sets", the total
  weight 20, the load per side 0, and under \<^verbatim>\<open>"plates"\<close> the text
  "None (just the bar)", which stands for no plate, in place of a list of plates.
\<close>

theorem get_workout_data_bar_entry:
  assumes "get_workout_data t = Some (Inr d)"
  shows "warmup_sets d \<noteq> []
         \<and> hd (warmup_sets d) =
             \<lparr>set_label = ''2 sets'', reps = 5, weight = 20, weight_per_side = 0,
              plates = PlatesText ''None (just the bar)''\<rparr>
         \<and> plates_total (plates (hd (warmup_sets d))) = 0"
proof (cases t)
  case (Finite r)
  with assms have "get_workout_data (Finite r) = Some (Inr d)" by simp
  from get_workout_data_returned [OF this] show ?thesis by auto
next
  case Infinity
  with assms show ?thesis by (simp add: get_workout_data.simps)
next
  case NaN
  with assms show ?thesis by (simp add: get_workout_data.simps)
qed

theorem get_workout_data_bar_entry_witness:
  "(\<exists>d. get_workout_data (Finite 100) = Some (Inr d)
        \<and> hd (warmup_sets d) =
             \<lparr>set_label = ''2 sets'', reps = 5, weight = 20, weight_per_side = 0,
              plates = PlatesText ''None (just the bar)''\<rparr>)"
  using get_workout_data_bar_entry [OF get_workout_data_100] get_workout_data_100 by blast

text \<open>
  Claim C8, as stated, fails at the target 100: the plan is returned and the value under
  \<^verbatim>\<open>"plates"\<close> of its first entry is not the empty list of plates.
\<close>

theorem get_workout_data_bar_entry_counterexample:
  "map_option (map_sum id (plates \<circ> hd \<circ> warmup_sets)) (get_workout_data (Finite 100))
     = Some (Inr (PlatesText ''None (just the bar)''))
   \<and> PlatesText ''None (just the bar)'' \<noteq> PlatesList []"
  by (simp add: get_workout_data_100)

text \<open>
  Claim C7, as amended. For every target that is a double up to \<open>2\<^sup>5\<^sup>2\<close> and for which
  \<^verbatim>\<open>get_workout_data\<close> returns a plan, every entry satisfies: the total of its plates
  is at most the load per side \<open>(total weight - 20) / 2\<close> and falls short of it by less
  than the smallest plate 2.5; against the stored load per side, which is rounded to
  two places, the total is at most the stored value and falls short of it by at most
  2.5.
\<close>

theorem get_workout_data_sum_property:
  assumes "get_workout_data (Finite t) = Some (Inr d)" and "is_float t" and "t \<le> 2 ^ 52"
  shows "(\<forall>s \<in> set (warmup_sets d).
            \<exists>l. plate_weight (weight s) bar_weight_default = Inr l
              \<and> plates_total (plates s) \<le> l \<and> l - plates_total (plates s) < 5/2
              \<and> weight_per_side s = py_round_ndigits l 2
              \<and> plates_total (plates s) \<le> weight_per_side s
              \<and> weight_per_side s - plates_total (plates s) \<le> 5/2)
         \<and> (\<exists>l. plate_weight (weight_t (target d)) bar_weight_default = Inr l
              \<and> sum_list (plates_t (target d)) \<le> l
              \<and> l - sum_list (plates_t (target d)) < 5/2
              \<and> weight_per_side_t (target d) = py_round_ndigits l 2
              \<and> sum_list (plates_t (target d)) \<le> weight_per_side_t (target d)
              \<and> weight_per_side_t (target d) - sum_list (plates_t (target d)) \<le> 5/2)"
proof -
  obtain w45 w65 w85 where cw: "calculate_warmup_weights (Finite t) = Inr (w45, w65, w85)"
    by (simp add: calculate_warmup_weights.simps Let_def)
  from get_workout_data_plan [OF cw] assms(1)
  have ge: "20 \<le> w45" "20 \<le> w65" "20 \<le> w85" "20 \<le> t" by blast+
  have ft: "fl t = t" using assms(2) by (simp add: is_float_def)
  have d: "d =
      \<lparr>warmup_sets =
         [\<lparr>set_label = ''2 sets'', reps = 5, weight = 20, weight_per_side = 0,
           plates = PlatesText ''None (just the bar)''\<rparr>,
          \<lparr>set_label = ''1 set'', reps = 5, weight = of_int w45,
           weight_per_side = py_round_ndigits ((of_int w45 - 20) / 2) 2,
           plates = PlatesList (greedy_decomposition ((of_int w45 - 20) / 2) plate_weights_default)\<rparr>,
          \<lparr>set_label = ''1 set'', reps = 3, weight = of_int w65,
           weight_per_side = py_round_ndigits ((of_int w65 - 20) / 2) 2,
           plates = PlatesList (greedy_decomposition ((of_int w65 - 20) / 2) plate_weights_default)\<rparr>,
          \<lparr>set_label = ''1 set'', reps = 2, weight = of_int w85,
           weight_per_side = py_round_ndigits ((of_int w85 - 20) / 2) 2,
           plates = PlatesList (greedy_decomposition ((of_int w85 - 20) / 2) plate_weights_default)\<rparr>],
        target =
          \<lparr>weight_t = t, weight_per_side_t = py_round_ndigits ((t - 20) / 2) 2,
           plates_t = (greedy_decomposition ((t - 20) / 2) plate_weights_default)\<rparr>\<rparr>"
    using get_workout_data_exact [OF ft assms(3) cw ge] assms(1) by simp
  have entry: "\<exists>l. plate_weight w bar_weight_default = Inr l
      \<and> sum_list (greedy_decomposition ((w - 20) / 2) plate_weights_default) \<le> l
      \<and> l - sum_list (greedy_decomposition ((w - 20) / 2) plate_weights_default) < 5/2
      \<and> py_round_ndigits ((w - 20) / 2) 2 = py_round_ndigits l 2
      \<and> sum_list (greedy_decomposition ((w - 20) / 2) plate_weights_default)
           \<le> py_round_ndigits ((w - 20) / 2) 2
      \<and> py_round_ndigits ((w - 20) / 2) 2
           - sum_list (greedy_decomposition ((w - 20) / 2) plate_weights_default) \<le> 5/2"
    if w: "20 \<le> w" for w
  proof -
    have l: "0 \<le> (w - 20) / 2" using w by simp
    have "plate_weight w bar_weight_default = Inr ((w - 20) / 2)"
      using w by (simp add: plate_weight_def bar_weight_default_def)
    with greedy_default_bounds [OF l] show ?thesis by blast
  qed
  have bar: "\<exists>l. plate_weight 20 bar_weight_default = Inr l
      \<and> (0::real) \<le> l \<and> l - 0 < 5/2 \<and> 0 = py_round_ndigits l 2"
  proof -
    have "py_round_ndigits 0 2 = 0"
      by (simp add: py_round_ndigits_def py_round_def c_round_def)
    moreover have "plate_weight 20 bar_weight_default = Inr 0"
      by (simp add: plate_weight_def bar_weight_default_def)
    ultimately show ?thesis by simp
  qed
  have e45: "20 \<le> (of_int w45 :: real)" using ge(1) by simp
  have e65: "20 \<le> (of_int w65 :: real)" using ge(2) by simp
  have e85: "20 \<le> (of_int w85 :: real)" using ge(3) by simp
  show ?thesis
    unfolding d using bar entry [OF e45] entry [OF e65] entry [OF e85] entry [OF ge(4)]
    by simp
qed

theorem get_workout_data_sum_property_witness:
  "is_float 100 \<and> (100::real) \<le> 2 ^ 52
   \<and> get_workout_data (Finite 100) = Some (Inr
     \<lparr>warmup_sets =
        [\<lparr>set_label = ''2 sets'', reps = 5, weight = 20, weight_per_side = 0,
          plates = PlatesText ''None (just the bar)''\<rparr>,
         \<lparr>set_label = ''1 set'', reps = 5, weight = 45,
          weight_per_side = 25/2,
          plates = PlatesList [10, 5/2]\<rparr>,
         \<lparr>set_label = ''1 set'', reps = 3, weight = 65,
          weight_per_side = 45/2,
          plates = PlatesList [20, 5/2]\<rparr>,
         \<lparr>set_label = ''1 set'', reps = 2, weight = 85,
          weight_per_side = 65/2,
          plates = PlatesList [20, 10, 5/2]\<rparr>],
       target =
         \<lparr>weight_t = 100, weight_per_side_t = 40,
          plates_t = [20, 20]\<rparr>\<rparr>)
   \<and> (\<exists>l. plate_weight 100 bar_weight_default = Inr l
          \<and> sum_list [20, 20] \<le> l \<and> l - sum_list [20, 20] < 5/2)"
proof -
  have f: "is_float 100" by code_simp
  have b: "(100::real) \<le> 2 ^ 52" by simp
  from get_workout_data_sum_property [OF get_workout_data_100 f b] get_workout_data_100 f
  show ?thesis by auto
qed

text \<open>
  Claim C7, as stated, fails at the target 100: the target entry has the load per side
  40 and the plates [20, 20], and twice their total is 80.
\<close>

theorem get_workout_data_sum_property_counterexample:
  "map_option (map_sum id (weight_per_side_t \<circ> target)) (get_workout_data (Finite 100))
     = Some (Inr 40)
   \<and> map_option (map_sum id (plates_t \<circ> target)) (get_workout_data (Finite 100))
     = Some (Inr [20, 20])
   \<and> \<not> 2 * sum_list [20, 20] \<le> (40::real)"
  by (simp add: get_workout_data_100)

end
